theory Spec2Isabelle
  imports Complex_Main "HOL-Library.Word" "HOL-Library.Multiset"
begin

unbundle bit_operations_syntax

section \<open>Number model, random source, drawing surface\<close>

text \<open>
  \<^verbatim>\<open>src/app.js\<close> holds three successive versions of the application; the model follows the
  one that defines all eight effects (lines 671 to 1904, \<^verbatim>\<open>visualScale\<close> at line 846).

  The effects compute with JavaScript numbers. They are modelled as real numbers: \<^verbatim>\<open>Math.sqrt\<close>, \<^verbatim>\<open>Math.sin\<close>, \<^verbatim>\<open>Math.floor\<close> are \<open>sqrt\<close>, \<open>sin\<close>,
  \<open>floor\<close>. Rounding of IEEE doubles, \<^verbatim>\<open>NaN\<close> and the infinities are outside this model;
  surface dimensions are taken non-negative where a square root needs it.

  \<^verbatim>\<open>Math.random()\<close> is a global source of numbers in \<open>[0, 1)\<close>. A function that calls it
  takes the source as an argument: \<open>rs k\<close> is the value of the \<open>k\<close>-th call from now on, and
  the function returns the source advanced past the calls it made.
\<close>

type_synonym rng = "nat \<Rightarrow> real"

definition rdrop :: "nat \<Rightarrow> rng \<Rightarrow> rng" where
  "rdrop n rs = (\<lambda>k. rs (n + k))"

definition rng_ok :: "rng \<Rightarrow> bool" where
  "rng_ok rs = (\<forall>k. 0 \<le> rs k \<and> rs k < 1)"

text \<open>The remainder operator \<^verbatim>\<open>%\<close> on numbers: the quotient is truncated towards zero.\<close>

definition js_rem :: "real \<Rightarrow> real \<Rightarrow> real" where
  "js_rem a b = a - b * of_int (if 0 \<le> a / b then \<lfloor>a / b\<rfloor> else \<lceil>a / b\<rceil>)"

record html_canvas =
  canvas_id :: nat
  canvas_width :: real
  canvas_height :: real

text \<open>
  The calls an effect issues on its 2D context. A template string such as
  \<^verbatim>\<open>`hsl(${hue}, ${sat}%, ${light}%)`\<close> is kept as the constructor with its numbers.
\<close>

datatype colour =
    Css string
  | Hsl real real real
  | Hsla real real real real
  | Rgba real real real real

datatype paint =
    Solid colour
  | LinearGradient real real real real "(real \<times> colour) list"
  | RadialGradient real real real real real real "(real \<times> colour) list"

datatype ctx_call =
    SetFillStyle paint
  | SetStrokeStyle paint
  | SetLineWidth real
  | SetLineCap string
  | SetLineJoin string
  | SetGlobalAlpha real
  | FillRect real real real real
  | StrokeRect real real real real
  | BeginPath
  | ClosePath
  | MoveTo real real
  | LineTo real real
  | QuadraticCurveTo real real real real
  | Arc real real real real real
  | Ellipse real real real real real real real
  | Fill
  | Stroke
  | Save
  | Restore
  | Translate real real
  | Rotate real

datatype js_error = TypeError

text \<open>
  A sequence of drawing steps, each of which either issues its calls or throws before
  issuing any: the calls issued, and the exception that ended the sequence, if any.
\<close>

fun seq_calls :: "(js_error + ctx_call list) list \<Rightarrow> ctx_call list \<times> js_error option" where
  "seq_calls [] = ([], None)"
| "seq_calls (Inl e # rest) = ([], Some e)"
| "seq_calls (Inr cs # rest) = (case seq_calls rest of (ds, e) \<Rightarrow> (cs @ ds, e))"

section \<open>Scale model and the base class\<close>

definition REF_AREA :: real where
  "REF_AREA = 280 * 200"

definition visualScale :: "real \<Rightarrow> real \<Rightarrow> real" where
  "visualScale width height = sqrt ((width * height) / REF_AREA)"

record base_visual =
  canvas :: html_canvas
  ctx :: nat
  width :: real
  height :: real
  time :: real
  scale :: real

definition BaseVisual :: "html_canvas \<Rightarrow> nat \<Rightarrow> base_visual" where
  "BaseVisual cv cx =
     \<lparr> canvas = cv, ctx = cx, width = canvas_width cv, height = canvas_height cv, time = 0,
       scale = visualScale (canvas_width cv) (canvas_height cv) \<rparr>"

definition BaseVisual_resize ::
  "real \<Rightarrow> real \<Rightarrow> 'a base_visual_scheme \<Rightarrow> 'a base_visual_scheme" where
  "BaseVisual_resize w h v = v\<lparr> width := w, height := h, scale := visualScale w h \<rparr>"

definition BaseVisual_update :: "'a base_visual_scheme \<Rightarrow> 'a base_visual_scheme" where
  "BaseVisual_update v = v\<lparr> time := time v + 0.016 \<rparr>"

section \<open>Mosaic\<close>

record node =
  node_x0 :: real
  node_y0 :: real
  node_x :: real
  node_y :: real
  node_phase :: real
  node_phaseY :: real
  node_amp :: real

record mosaic = base_visual +
  grid :: "node list list"

text \<open>\<^verbatim>\<open>this.grid[row][col]\<close>: \<open>None\<close> is \<^verbatim>\<open>undefined\<close>, past the end of the row.\<close>

definition grid_at :: "node list list \<Rightarrow> nat \<Rightarrow> nat \<Rightarrow> node option" where
  "grid_at g row col =
     (if row < length g \<and> col < length (g ! row) then Some (g ! row ! col) else None)"

text \<open>Reading \<^verbatim>\<open>a.x\<close> of an undefined point throws before anything is drawn.\<close>

definition drawTriangle ::
  "mosaic \<Rightarrow> node option \<times> node option \<times> node option \<Rightarrow> real \<Rightarrow> nat
     \<Rightarrow> js_error + ctx_call list" where
  "drawTriangle v pts hueOffset seed =
     (case pts of
        (Some a, Some b, Some c) \<Rightarrow>
          (let cx = (node_x a + node_x b + node_x c) / 3;
               cy = (node_y a + node_y b + node_y c) / 3;
               nx = max 0 (min 1 (cx / width v));
               ny = max 0 (min 1 (cy / height v));
               hue = js_rem (hueOffset + (nx * 0.35 + ny * 0.65) * 300 + real seed * 2) 360;
               sat = 70 + real (seed mod 3) * 10;
               light = 40 + (sin (time v * 0.5 + real seed * 0.2) * 0.5 + 0.5) * 25
           in Inr [BeginPath,
                   MoveTo (node_x a) (node_y a),
                   LineTo (node_x b) (node_y b),
                   LineTo (node_x c) (node_y c),
                   ClosePath,
                   SetFillStyle (Solid (Hsl hue sat light)),
                   Fill,
                   SetStrokeStyle (Solid (Hsla hue sat (light * 0.75) 0.4)),
                   SetLineWidth 1,
                   Stroke])
      | _ \<Rightarrow> Inl TypeError)"

definition mosaic_cell :: "mosaic \<Rightarrow> real \<Rightarrow> nat \<Rightarrow> nat \<Rightarrow> (js_error + ctx_call list) list" where
  "mosaic_cell v hueOffset row col =
     (let p00 = grid_at (grid v) row col;
          p10 = grid_at (grid v) row (col + 1);
          p01 = grid_at (grid v) (row + 1) col;
          p11 = grid_at (grid v) (row + 1) (col + 1);
          flip = ((row + col) mod 2 = 0);
          tri1 = (if flip then (p00, p10, p11) else (p00, p10, p01));
          tri2 = (if flip then (p00, p11, p01) else (p10, p11, p01))
      in [drawTriangle v tri1 hueOffset (row * (length (grid v ! row) - 1) + col),
          drawTriangle v tri2 hueOffset (row * (length (grid v ! row) - 1) + col + 1)])"

text \<open>
  \<^verbatim>\<open>render\<close> returns the calls issued, the exception if one ended it, and the instance as
  the method leaves it.
\<close>

definition MosaicVisual_render :: "mosaic \<Rightarrow> (ctx_call list \<times> js_error option) \<times> mosaic" where
  "MosaicVisual_render v =
     (let hueOffset = js_rem (time v * 14) 360;
          cells = concat (map (\<lambda>row. concat (map (\<lambda>col. mosaic_cell v hueOffset row col)
                                   [0 ..< length (grid v ! row) - 1]))
                          [0 ..< length (grid v) - 1])
      in (case seq_calls cells of (cs, e) \<Rightarrow>
            ([SetFillStyle (Solid (Css ''#0a0a12'')), FillRect 0 0 (width v) (height v)] @ cs, e),
          v))"

section \<open>Smoke\<close>

record particle =
  p_x :: real
  p_y :: real
  p_vx :: real
  p_vy :: real
  p_size :: real
  p_opacity :: real
  p_life :: real

record smoke = base_visual +
  particles :: "particle list"

definition smoke_count :: "real \<Rightarrow> int" where
  "smoke_count s = min 80 (max 50 \<lfloor>50 * s\<rfloor>)"

text \<open>The object literal pushed by \<^verbatim>\<open>initParticles\<close>: seven calls of the random source.\<close>

definition new_particle :: "smoke \<Rightarrow> rng \<Rightarrow> particle" where
  "new_particle v rs =
     \<lparr> p_x = rs 0 * width v,
       p_y = height v + rs 1 * 200 * scale v,
       p_vx = (rs 2 - 0.5) * 0.5,
       p_vy = - 0.5 - rs 3 * 1.5,
       p_size = (20 + rs 4 * 80) * scale v,
       p_opacity = 0.1 + rs 5 * 0.3,
       p_life = rs 6 \<rparr>"

fun initParticles_loop :: "nat \<Rightarrow> smoke \<Rightarrow> rng \<Rightarrow> smoke \<times> rng" where
  "initParticles_loop 0 v rs = (v, rs)"
| "initParticles_loop (Suc n) v rs =
     initParticles_loop n (v\<lparr> particles := particles v @ [new_particle v rs] \<rparr>) (rdrop 7 rs)"

definition initParticles :: "smoke \<Rightarrow> rng \<Rightarrow> smoke \<times> rng" where
  "initParticles v rs = initParticles_loop (nat (smoke_count (scale v))) v rs"

definition SmokeVisual :: "html_canvas \<Rightarrow> nat \<Rightarrow> rng \<Rightarrow> smoke \<times> rng" where
  "SmokeVisual cv cx rs =
     initParticles (base_visual.extend (BaseVisual cv cx) (smoke.fields [])) rs"

definition SmokeVisual_resize :: "real \<Rightarrow> real \<Rightarrow> smoke \<Rightarrow> rng \<Rightarrow> smoke \<times> rng" where
  "SmokeVisual_resize w h v rs = initParticles (BaseVisual_resize w h v) rs"

definition smoke_draw :: "particle \<Rightarrow> ctx_call list" where
  "smoke_draw p =
     [SetFillStyle (RadialGradient (p_x p) (p_y p) 0 (p_x p) (p_y p) (p_size p)
        [(0, Rgba 200 200 220 (p_opacity p)),
         (0.5, Rgba 150 150 180 (p_opacity p * 0.5)),
         (1, Rgba 100 100 140 0)]),
      BeginPath,
      Arc (p_x p) (p_y p) (p_size p) 0 (pi * 2),
      Fill]"

definition SmokeVisual_render :: "smoke \<Rightarrow> (ctx_call list \<times> js_error option) \<times> smoke" where
  "SmokeVisual_render v =
     (([SetFillStyle (Solid (Css ''#0a0a0a'')), FillRect 0 0 (width v) (height v)]
        @ concat (map smoke_draw (particles v)), None), v)"

section \<open>Light and shade\<close>

record light =
  light_x :: real
  light_y :: real
  light_radius :: real
  light_speedX :: real
  light_speedY :: real
  light_hue :: real

record lightshade = base_visual +
  lights :: "light list"

definition lightshade_count :: "real \<Rightarrow> int" where
  "lightshade_count s = min 12 (max 5 \<lfloor>5 * s\<rfloor>)"

definition new_light :: "lightshade \<Rightarrow> rng \<Rightarrow> light" where
  "new_light v rs =
     \<lparr> light_x = rs 0 * width v,
       light_y = rs 1 * height v,
       light_radius = (100 + rs 2 * 200) * scale v,
       light_speedX = (rs 3 - 0.5) * 2,
       light_speedY = (rs 4 - 0.5) * 2,
       light_hue = rs 5 * 360 \<rparr>"

fun initLights_loop :: "nat \<Rightarrow> lightshade \<Rightarrow> rng \<Rightarrow> lightshade \<times> rng" where
  "initLights_loop 0 v rs = (v, rs)"
| "initLights_loop (Suc n) v rs =
     initLights_loop n (v\<lparr> lights := lights v @ [new_light v rs] \<rparr>) (rdrop 6 rs)"

definition initLights :: "lightshade \<Rightarrow> rng \<Rightarrow> lightshade \<times> rng" where
  "initLights v rs = initLights_loop (nat (lightshade_count (scale v))) v rs"

definition LightShadeVisual :: "html_canvas \<Rightarrow> nat \<Rightarrow> rng \<Rightarrow> lightshade \<times> rng" where
  "LightShadeVisual cv cx rs =
     initLights (base_visual.extend (BaseVisual cv cx) (lightshade.fields [])) rs"

definition LightShadeVisual_resize ::
  "real \<Rightarrow> real \<Rightarrow> lightshade \<Rightarrow> rng \<Rightarrow> lightshade \<times> rng" where
  "LightShadeVisual_resize w h v rs = initLights (BaseVisual_resize w h v) rs"

definition light_draw :: "light \<Rightarrow> ctx_call list" where
  "light_draw l =
     [SetFillStyle (RadialGradient (light_x l) (light_y l) 0 (light_x l) (light_y l)
        (light_radius l)
        [(0, Hsla (light_hue l) 70 60 0.8),
         (0.5, Hsla (light_hue l) 60 50 0.3),
         (1, Css ''transparent'')]),
      BeginPath,
      Arc (light_x l) (light_y l) (light_radius l) 0 (pi * 2),
      Fill]"

definition LightShadeVisual_render ::
  "lightshade \<Rightarrow> (ctx_call list \<times> js_error option) \<times> lightshade" where
  "LightShadeVisual_render v =
     (([SetFillStyle (Solid (Css ''#050505'')), FillRect 0 0 (width v) (height v)]
        @ concat (map light_draw (lights v)), None), v)"

section \<open>Lanterns\<close>

record lantern =
  ln_x :: real
  ln_y :: real
  ln_radius :: real
  ln_swing :: real
  ln_swingSpeed :: real
  ln_floatSpeed :: real
  ln_swayAmount :: real
  ln_hue :: real
  ln_sat :: real
  ln_ribOffset :: real

text \<open>
  An obstruction holds the closure \<^verbatim>\<open>path\<close>, which captured the width and height of the
  moment it was built: \<open>ob_draw\<close> is the list of context calls the closure issues.
\<close>

record obstruction =
  ob_type :: string
  ob_depth :: real
  ob_draw :: "ctx_call list"
  ob_color :: string
  ob_width :: real

record lanterns = base_visual +
  lanterns :: "lantern list"
  obstructions :: "obstruction list"

definition lanterns_count :: "real \<Rightarrow> int" where
  "lanterns_count s = min 14 (max 5 \<lfloor>6 * s\<rfloor>)"

definition new_lantern :: "lanterns \<Rightarrow> rng \<Rightarrow> lantern" where
  "new_lantern v rs =
     \<lparr> ln_x = rs 0 * width v,
       ln_y = rs 1 * height v,
       ln_radius = (28 + rs 2 * 38) * scale v * 0.58,
       ln_swing = rs 3 * pi * 2,
       ln_swingSpeed = 0.00015 + rs 4 * 0.00035,
       ln_floatSpeed = (0.004 + rs 5 * 0.009) * scale v,
       ln_swayAmount = 0.04 + rs 6 * 0.08,
       ln_hue = 0 + rs 7 * 14,
       ln_sat = 88 + rs 8 * 12,
       ln_ribOffset = rs 9 * pi \<rparr>"

fun initLanterns_loop :: "nat \<Rightarrow> lanterns \<Rightarrow> rng \<Rightarrow> lanterns \<times> rng" where
  "initLanterns_loop 0 v rs = (v, rs)"
| "initLanterns_loop (Suc n) v rs =
     initLanterns_loop n (v\<lparr> lanterns := lanterns v @ [new_lantern v rs] \<rparr>) (rdrop 10 rs)"

definition initLanterns :: "lanterns \<Rightarrow> rng \<Rightarrow> lanterns \<times> rng" where
  "initLanterns v rs = initLanterns_loop (nat (lanterns_count (scale v))) v rs"

definition branches :: "real \<Rightarrow> real \<Rightarrow> (real \<times> ctx_call list) list" where
  "branches w h =
     [(0.22, [MoveTo (- w * 0.08) (h * 0.2),
              QuadraticCurveTo (w * 0.15) (h * 0.1) (w * 0.35) (h * 0.5),
              QuadraticCurveTo (w * 0.28) (h * 0.75) (w * 0.1) (h * 1.05)]),
      (0.48, [MoveTo (w * 1.02) (h * 0.35),
              QuadraticCurveTo (w * 0.82) (h * 0.5) (w * 0.7) (h * 0.85),
              QuadraticCurveTo (w * 0.65) (h * 0.5) (w * 0.5) (h * 0.1)]),
      (0.58, [MoveTo (- w * 0.05) (h * 0.65),
              QuadraticCurveTo (w * 0.4) (h * 0.5) (w * 0.72) (h * 0.35),
              QuadraticCurveTo (w * 0.6) (h * 0.15) (w * 0.25) (- h * 0.05)]),
      (0.72, [MoveTo (w * 0.88) (h * 0.7),
              QuadraticCurveTo (w * 0.5) (h * 0.55) (w * 0.12) (h * 0.72),
              LineTo (- w * 0.03) (h * 0.5)]),
      (0.35, [MoveTo (w * 0.6) (- h * 0.02),
              QuadraticCurveTo (w * 0.75) (h * 0.4) (w * 0.68) (h * 0.88)])]"

fun push_branches ::
  "(real \<times> ctx_call list) list \<Rightarrow> obstruction list \<Rightarrow> rng \<Rightarrow> obstruction list \<times> rng" where
  "push_branches [] obs rs = (obs, rs)"
| "push_branches ((d, path) # bs) obs rs =
     push_branches bs
       (obs @ [\<lparr> ob_type = ''branch'', ob_depth = d, ob_draw = path,
                 ob_color = ''rgba(28, 22, 18, 0.92)'', ob_width = 4 + rs 0 * 5 \<rparr>])
       (rdrop 1 rs)"

definition initObstructions :: "lanterns \<Rightarrow> rng \<Rightarrow> lanterns \<times> rng" where
  "initObstructions v rs =
     (case push_branches (branches (width v) (height v)) [] rs of
        (obs, rs') \<Rightarrow> (v\<lparr> obstructions := obs \<rparr>, rs'))"

definition LanternsVisual :: "html_canvas \<Rightarrow> nat \<Rightarrow> rng \<Rightarrow> lanterns \<times> rng" where
  "LanternsVisual cv cx rs =
     (case initLanterns (base_visual.extend (BaseVisual cv cx) (lanterns.fields [] [])) rs of
        (v, rs') \<Rightarrow> initObstructions v rs')"

definition LanternsVisual_resize :: "real \<Rightarrow> real \<Rightarrow> lanterns \<Rightarrow> rng \<Rightarrow> lanterns \<times> rng" where
  "LanternsVisual_resize w h v rs =
     (case initLanterns ((BaseVisual_resize w h v)\<lparr> lanterns := [], obstructions := [] \<rparr>) rs of
        (v', rs') \<Rightarrow> initObstructions v' rs')"

text \<open>The body of the \<^verbatim>\<open>forEach\<close> in \<^verbatim>\<open>update\<close>, for one lantern.\<close>

definition lantern_step :: "lanterns \<Rightarrow> lantern \<Rightarrow> rng \<Rightarrow> lantern \<times> rng" where
  "lantern_step v l rs =
     (let swing' = ln_swing l + ln_swingSpeed l;
          x' = ln_x l + sin swing' * ln_swayAmount l * scale v;
          y' = ln_y l - ln_floatSpeed l
      in if y' < - ln_radius l * 3
         then (l\<lparr> ln_swing := swing', ln_y := height v + ln_radius l * 2, ln_x := rs 0 * width v \<rparr>,
               rdrop 1 rs)
         else (l\<lparr> ln_swing := swing', ln_x := x', ln_y := y' \<rparr>, rs))"

fun lanterns_forEach :: "lanterns \<Rightarrow> lantern list \<Rightarrow> rng \<Rightarrow> lantern list \<times> rng" where
  "lanterns_forEach v [] rs = ([], rs)"
| "lanterns_forEach v (l # ls) rs =
     (case lantern_step v l rs of
        (l', rs') \<Rightarrow> (case lanterns_forEach v ls rs' of (ls', rs'') \<Rightarrow> (l' # ls', rs'')))"

definition LanternsVisual_update :: "lanterns \<Rightarrow> rng \<Rightarrow> lanterns \<times> rng" where
  "LanternsVisual_update v rs =
     (let v1 = BaseVisual_update v
      in case lanterns_forEach v1 (lanterns v1) rs of
           (ls, rs') \<Rightarrow> (v1\<lparr> lanterns := ls \<rparr>, rs'))"

text \<open>One tick of a lantern instance: \<^verbatim>\<open>update\<close> with the random source threaded through.\<close>

definition lanterns_tick :: "lanterns \<times> rng \<Rightarrow> lanterns \<times> rng" where
  "lanterns_tick p = LanternsVisual_update (fst p) (snd p)"

definition lanternDepth :: "lanterns \<Rightarrow> lantern \<Rightarrow> real" where
  "lanternDepth v l =
     (let y = max (- ln_radius l * 2) (min (height v + ln_radius l * 2) (ln_y l))
      in 0.12 + 0.82 * (1 - (y / (height v + ln_radius l * 4))))"

definition drawObstruction :: "lanterns \<Rightarrow> obstruction \<Rightarrow> ctx_call list" where
  "drawObstruction v ob =
     (if ob_type ob = ''branch''
      then [SetStrokeStyle (Solid (Css (ob_color ob))),
            SetLineWidth ((if ob_width ob = 0 then 5 else ob_width ob) * scale v),
            SetLineCap ''round'',
            SetLineJoin ''round'',
            BeginPath] @ ob_draw ob @ [Stroke]
      else [])"

definition drawLanternLightSpill :: "lantern \<Rightarrow> ctx_call list" where
  "drawLanternLightSpill l =
     (let r = ln_radius l; h = ln_hue l; sat = ln_sat l; spillRadius = r * 3.2
      in [SetFillStyle (RadialGradient (ln_x l) (ln_y l) 0 (ln_x l) (ln_y l) spillRadius
            [(0, Hsla h sat 65 0.14), (0.4, Hsla h sat 55 0.06), (0.7, Hsla h sat 45 0.02),
             (1, Css ''transparent'')]),
          BeginPath,
          Arc (ln_x l) (ln_y l) spillRadius 0 (pi * 2),
          Fill])"

text \<open>The inner loop of the ribs: \<^verbatim>\<open>for (let t = -0.88; t <= 0.88; t += 0.05)\<close>.\<close>

function rib_path :: "real \<Rightarrow> real \<Rightarrow> real \<Rightarrow> ctx_call list" where
  "rib_path r a t =
     (if t \<le> 0.88
      then (let y = t * r;
                x = sqrt (max 0 (1 - (y / r) * (y / r))) * r * cos a
            in (if t = - 0.88 then MoveTo x y else LineTo x y) # rib_path r a (t + 0.05))
      else [])"
  by pat_completeness auto
termination
proof (relation "measure (\<lambda>(r, a, t). nat (\<lfloor>(0.88 - t) / 0.05\<rfloor> + 1))")
  show "wf (measure (\<lambda>(r :: real, a :: real, t :: real). nat (\<lfloor>(0.88 - t) / 0.05\<rfloor> + 1)))"
    by simp
next
  fix r a t :: real
  assume t: "t \<le> 0.88"
  define q where "q = (0.88 - t) / 0.05"
  have e: "(0.88 - (t + 0.05)) / 0.05 = q - 1"
    unfolding q_def by (simp add: field_simps)
  have "0 \<le> q"
    unfolding q_def using t by simp
  hence "0 \<le> \<lfloor>q\<rfloor>"
    by simp
  hence "nat (\<lfloor>q - 1\<rfloor> + 1) < nat (\<lfloor>q\<rfloor> + 1)"
    by (simp add: floor_diff_one)
  thus "((r, a, t + 0.05), (r, a, t))
          \<in> measure (\<lambda>(r, a, t). nat (\<lfloor>(0.88 - t) / 0.05\<rfloor> + 1))"
    unfolding in_measure prod.case e q_def[symmetric] .
qed

declare rib_path.simps [simp del]

definition lantern_rib :: "lantern \<Rightarrow> nat \<Rightarrow> ctx_call list" where
  "lantern_rib l i =
     (let a = (real i / 10) * pi * 2 + ln_ribOffset l
      in [BeginPath] @ rib_path (ln_radius l) a (- 0.88) @ [Stroke])"

definition lantern_tassel :: "real \<Rightarrow> real \<Rightarrow> real \<Rightarrow> nat \<Rightarrow> ctx_call list" where
  "lantern_tassel r tilt tasselY i =
     (let angle = (real i - 1) * 0.2 + tilt * 0.3;
          len = r * (0.4 + real (i mod 2) * 0.15)
      in [BeginPath, MoveTo 0 tasselY, LineTo (sin angle * len) (tasselY + len), Stroke])"

definition drawOneLantern :: "lantern \<Rightarrow> ctx_call list" where
  "drawOneLantern l =
     (let tilt = sin (ln_swing l) * 0.05;
          r = ln_radius l; h = ln_hue l; sat = ln_sat l;
          hotY = - r * 0.15;
          tasselY = r + r * 0.1
      in [Save, Translate (ln_x l) (ln_y l), Rotate tilt,
          SetFillStyle (RadialGradient 0 0 (r * 0.5) 0 0 (r * 1.8)
            [(0, Hsla h sat 55 0.12), (0.6, Hsla h sat 45 0.04), (1, Css ''transparent'')]),
          BeginPath, Arc 0 0 (r * 1.8) 0 (pi * 2), Fill,
          SetFillStyle (RadialGradient 0 hotY 0 0 0 r
            [(0, Css ''hsla(35, 60%, 92%, 0.98)''),
             (0.08, Css ''hsla(12, 90%, 78%, 0.97)''),
             (0.2, Hsla h sat 58 0.98),
             (0.5, Hsla h sat 52 0.97),
             (0.85, Hsla h sat 48 0.96),
             (1, Hsla h sat 38 0.92)]),
          BeginPath, Arc 0 0 r 0 (pi * 2), Fill,
          SetStrokeStyle (Solid (Hsla h sat 28 0.22)),
          SetLineWidth (max 0.5 (r * 0.012))]
         @ concat (map (lantern_rib l) [0 ..< 10])
         @ [SetFillStyle (Solid (Css ''hsla(0, 20%, 12%, 0.95)'')),
            BeginPath, Ellipse 0 (- r - r * 0.04) (r * 0.46) (r * 0.1) 0 0 (pi * 2), Fill,
            SetStrokeStyle (Solid (Css ''hsla(0, 18%, 16%, 0.9)'')),
            SetLineWidth (max 0.7 (r * 0.03)),
            BeginPath, Ellipse 0 r (r * 0.88) (r * 0.05) 0 0 (pi * 2), Stroke,
            SetStrokeStyle (Solid (Css ''hsla(42, 68%, 50%, 0.88)'')),
            SetLineWidth (max 0.7 (r * 0.03)),
            SetLineCap ''round'']
         @ concat (map (lantern_tassel r tilt tasselY) [0 ..< 3])
         @ [SetLineCap ''butt'', Restore])"

text \<open>
  The entries of the local array \<^verbatim>\<open>drawables\<close>: \<^verbatim>\<open>{ depth, ob }\<close> or \<^verbatim>\<open>{ depth, lantern }\<close>.
\<close>

datatype drawable = ObDrawable real obstruction | LanternDrawable real lantern

fun drawable_depth :: "drawable \<Rightarrow> real" where
  "drawable_depth (ObDrawable d ob) = d"
| "drawable_depth (LanternDrawable d l) = d"

definition merged_drawables :: "lanterns \<Rightarrow> drawable list" where
  "merged_drawables v =
     map (\<lambda>ob. ObDrawable (ob_depth ob) ob) (obstructions v)
     @ map (\<lambda>l. LanternDrawable (lanternDepth v l) l) (lanterns v)"

text \<open>
  \<^verbatim>\<open>drawables.sort((a, b) => a.depth - b.depth)\<close>: the sort of an array is stable, and a
  stable sort by a key has one result, the one \<open>sort_key\<close> computes.
\<close>

definition sorted_drawables :: "lanterns \<Rightarrow> drawable list" where
  "sorted_drawables v = sort_key drawable_depth (merged_drawables v)"

fun draw_drawable :: "lanterns \<Rightarrow> drawable \<Rightarrow> ctx_call list" where
  "draw_drawable v (ObDrawable d ob) = drawObstruction v ob"
| "draw_drawable v (LanternDrawable d l) = drawLanternLightSpill l @ drawOneLantern l"

definition LanternsVisual_render ::
  "lanterns \<Rightarrow> (ctx_call list \<times> js_error option) \<times> lanterns" where
  "LanternsVisual_render v =
     (([SetFillStyle (Solid (Css ''#080810'')), FillRect 0 0 (width v) (height v)]
        @ concat (map (draw_drawable v) (sorted_drawables v)), None), v)"

section \<open>Sunset\<close>

record sunset = base_visual +
  zoomOut :: real

definition SunsetVisual :: "html_canvas \<Rightarrow> nat \<Rightarrow> sunset" where
  "SunsetVisual cv cx = base_visual.extend (BaseVisual cv cx) (sunset.fields 0.58)"

text \<open>\<^verbatim>\<open>SunsetVisual\<close> does not override \<^verbatim>\<open>update\<close>: its tick is the one of the base class.\<close>

definition SunsetVisual_update :: "sunset \<Rightarrow> sunset" where
  "SunsetVisual_update v = BaseVisual_update v"

text \<open>
  \<^verbatim>\<open>hash = (n) => ((n * 92837111) ^ (n >>> 15)) >>> 0\<close>. The bitwise operators work on the
  32-bit value of their operands. The product is exact as a double below \<open>2^53\<close>, which
  holds at every call (\<open>n \<le> 12381\<close>).
\<close>

definition hash :: "nat \<Rightarrow> nat" where
  "hash n = unat ((word_of_nat (n * 92837111) :: 32 word) XOR drop_bit 15 (word_of_nat n :: 32 word))"

record cloud_blob =
  blob_x :: real
  blob_y :: real
  blob_r :: real
  blob_opacity :: real

definition cloud_seed :: nat where
  "cloud_seed = 12345"

definition cloud_blobs :: "sunset \<Rightarrow> real \<Rightarrow> nat \<Rightarrow> cloud_blob list" where
  "cloud_blobs v s i =
     (let seed = cloud_seed;
          t = time v * 0.08 * s;
          baseX = js_rem (t * 120 + real (hash (i + seed + 1) mod 1000)) (width v + 400) - 200;
          baseY = height v * (0.35 + real (hash (i + seed + 2) mod 40) / 400)
                    + sin (time v * 0.05 + real i) * 8 * s;
          blobCount = 4 + hash (i + seed + 3) mod 3;
          opacity = 0.2 + real (hash (i + seed + 4) mod 18) / 100
      in map (\<lambda>b.
            \<lparr> blob_x = baseX + (real (hash (i * 7 + b + seed) mod 200) - 100) * 0.5 * s,
              blob_y = baseY + (real (hash (i * 7 + b + seed + 1) mod 80) - 40) * 0.7 * s,
              blob_r = (22 + real (hash (i * 7 + b + seed + 2) mod 32)) * s,
              blob_opacity = opacity \<rparr>)
          [0 ..< blobCount])"

definition draw_blob :: "cloud_blob \<Rightarrow> ctx_call list" where
  "draw_blob c =
     [SetFillStyle (RadialGradient (blob_x c) (blob_y c) 0 (blob_x c) (blob_y c) (blob_r c)
        [(0, Rgba 255 248 242 (blob_opacity c * 0.9)),
         (0.45, Rgba 255 238 225 (blob_opacity c * 0.5)),
         (0.8, Rgba 255 230 215 (blob_opacity c * 0.2)),
         (1, Css ''rgba(255, 235, 220, 0)'')]),
      BeginPath,
      Arc (blob_x c) (blob_y c) (blob_r c) 0 (pi * 2),
      Fill]"

definition drawClouds :: "sunset \<Rightarrow> real \<Rightarrow> ctx_call list" where
  "drawClouds v s =
     concat (map (\<lambda>i. [Save] @ concat (map draw_blob (cloud_blobs v s i)) @ [Restore]) [0 ..< 5])"

definition SunsetVisual_render :: "sunset \<Rightarrow> (ctx_call list \<times> js_error option) \<times> sunset" where
  "SunsetVisual_render v =
     (let s = scale v * zoomOut v;
          sunY = height v * 0.3 + sin (time v * 0.1) * 50 * s;
          sunX = width v * 0.5;
          sunGlowR = 150 * s;
          sunDiskR = 80 * s
      in (([SetFillStyle (LinearGradient 0 0 0 (height v)
              [(0, Css ''#1a1a2e''), (0.3, Css ''#16213e''), (0.5, Css ''#e94560''),
               (0.7, Css ''#ff6b6b''), (1, Css ''#ffa500'')]),
            FillRect 0 0 (width v) (height v),
            SetFillStyle (RadialGradient sunX sunY 0 sunX sunY sunGlowR
              [(0, Css ''#fff8dc''), (0.5, Css ''#ffd700''),
               (0.85, Css ''rgba(255, 220, 180, 0.25)''), (1, Css ''rgba(255, 235, 210, 0)'')]),
            BeginPath, Arc sunX sunY sunGlowR 0 (pi * 2), Fill,
            SetFillStyle (Solid (Css ''#ffd700'')),
            BeginPath, Arc sunX sunY sunDiskR 0 (pi * 2), Fill]
           @ drawClouds v s, None), v))"

section \<open>Bloom\<close>

record bloom =
  bl_x :: real
  bl_y :: real
  bl_hue :: real
  bl_sat :: real
  bl_size :: real
  bl_rotation :: real
  bl_rotationLag :: real
  bl_rotationSpeed :: real
  bl_swayPhase :: real
  bl_swayTilt :: real
  bl_petalPhase :: "real list"
  bl_translucent :: bool

record blooms_visual = base_visual +
  blooms :: "bloom list"

definition sizeScales :: "real list" where
  "sizeScales = [0.72, 1.15, 0.88]"

text \<open>
  One pass of the first loop of \<^verbatim>\<open>initBlooms\<close> (\<open>count = 3\<close>, so \<open>tx = i / 2\<close>): eight calls
  of the random source, in the order of the source text.
\<close>

definition new_bloom :: "blooms_visual \<Rightarrow> nat \<Rightarrow> rng \<Rightarrow> bloom" where
  "new_bloom v i rs =
     (let s = scale v; w = width v; h = height v;
          minSide = min w h;
          baseSize = minSide * 0.3 * s;
          tx = real i / (3 - 1);
          x = w * (0.18 + tx * 0.64);
          y = h * 0.5 + (rs 0 - 0.5) * h * 0.08;
          nx = x / w;
          hue = (if nx < 0.38 then 200 + (nx / 0.38) * 20 + (rs 1 - 0.5) * 8
                 else if nx < 0.62 then 130 + ((nx - 0.38) / 0.24) * 30 + (rs 1 - 0.5) * 10
                 else 28 + ((nx - 0.62) / 0.38) * 22 + (rs 1 - 0.5) * 8);
          r0 = rs 2 * pi * 2
      in \<lparr> bl_x = x, bl_y = y,
           bl_hue = js_rem (hue + 360) 360,
           bl_sat = 90 + rs 3 * 10,
           bl_size = baseSize * (sizeScales ! i + (rs 4 - 0.5) * 0.12),
           bl_rotation = r0,
           bl_rotationLag = r0,
           bl_rotationSpeed = 0.001 + (rs 5 - 0.5) * 0.0006,
           bl_swayPhase = rs 6 * pi * 2,
           bl_swayTilt = 0,
           bl_petalPhase = [],
           bl_translucent = (rs 7 < 0.5) \<rparr>)"

fun initBlooms_loop :: "nat \<Rightarrow> nat \<Rightarrow> blooms_visual \<Rightarrow> rng \<Rightarrow> blooms_visual \<times> rng" where
  "initBlooms_loop 0 i v rs = (v, rs)"
| "initBlooms_loop (Suc n) i v rs =
     initBlooms_loop n (Suc i) (v\<lparr> blooms := blooms v @ [new_bloom v i rs] \<rparr>) (rdrop 8 rs)"

text \<open>The second loop: every bloom of the list gets sixteen petal phases pushed.\<close>

definition push_petalPhases :: "bloom \<Rightarrow> rng \<Rightarrow> bloom" where
  "push_petalPhases b rs =
     b\<lparr> bl_petalPhase := bl_petalPhase b @ map (\<lambda>i. rs i * pi * 2) [0 ..< 6 + 10] \<rparr>"

fun petalPhases_forEach :: "bloom list \<Rightarrow> rng \<Rightarrow> bloom list \<times> rng" where
  "petalPhases_forEach [] rs = ([], rs)"
| "petalPhases_forEach (b # bs) rs =
     (case petalPhases_forEach bs (rdrop (6 + 10) rs) of
        (bs', rs') \<Rightarrow> (push_petalPhases b rs # bs', rs'))"

definition initBlooms :: "blooms_visual \<Rightarrow> rng \<Rightarrow> blooms_visual \<times> rng" where
  "initBlooms v rs =
     (case initBlooms_loop 3 0 v rs of
        (v1, rs1) \<Rightarrow> (case petalPhases_forEach (blooms v1) rs1 of
                        (bs, rs2) \<Rightarrow> (v1\<lparr> blooms := bs \<rparr>, rs2)))"

definition BloomVisual :: "html_canvas \<Rightarrow> nat \<Rightarrow> rng \<Rightarrow> blooms_visual \<times> rng" where
  "BloomVisual cv cx rs =
     initBlooms (base_visual.extend (BaseVisual cv cx) (blooms_visual.fields [])) rs"

definition BloomVisual_resize ::
  "real \<Rightarrow> real \<Rightarrow> blooms_visual \<Rightarrow> rng \<Rightarrow> blooms_visual \<times> rng" where
  "BloomVisual_resize w h v rs = initBlooms ((BaseVisual_resize w h v)\<lparr> blooms := [] \<rparr>) rs"

text \<open>\<^verbatim>\<open>while (d > Math.PI) d -= Math.PI * 2;\<close> and \<^verbatim>\<open>while (d < -Math.PI) d += Math.PI * 2;\<close>\<close>

function wrap_above :: "real \<Rightarrow> real" where
  "wrap_above d = (if d > pi then wrap_above (d - pi * 2) else d)"
  by pat_completeness auto
termination
proof (relation "measure (\<lambda>d. nat \<lceil>d / (pi * 2)\<rceil>)")
  show "wf (measure (\<lambda>d. nat \<lceil>d / (pi * 2)\<rceil>))"
    by simp
next
  fix d :: real
  assume d: "pi < d"
  define q where "q = d / (pi * 2)"
  have e: "(d - pi * 2) / (pi * 2) = q - 1"
    unfolding q_def by (simp add: field_simps)
  have "0 < d"
    using d pi_gt_zero by linarith
  hence "0 < q"
    unfolding q_def using pi_gt_zero by simp
  hence "0 < \<lceil>q\<rceil>"
    by simp
  hence "nat \<lceil>q - 1\<rceil> < nat \<lceil>q\<rceil>"
    by (simp add: ceiling_diff_one)
  thus "(d - pi * 2, d) \<in> measure (\<lambda>d. nat \<lceil>d / (pi * 2)\<rceil>)"
    unfolding in_measure e q_def[symmetric] .
qed

declare wrap_above.simps [simp del]

function wrap_below :: "real \<Rightarrow> real" where
  "wrap_below d = (if d < - pi then wrap_below (d + pi * 2) else d)"
  by pat_completeness auto
termination
proof (relation "measure (\<lambda>d. nat \<lceil>- d / (pi * 2)\<rceil>)")
  show "wf (measure (\<lambda>d. nat \<lceil>- d / (pi * 2)\<rceil>))"
    by simp
next
  fix d :: real
  assume d: "d < - pi"
  define q where "q = - d / (pi * 2)"
  have e: "- (d + pi * 2) / (pi * 2) = q - 1"
    unfolding q_def by (simp add: field_simps)
  have "0 < - d"
    using d pi_gt_zero by linarith
  hence "0 < q"
    unfolding q_def using pi_gt_zero by (simp add: divide_neg_pos)
  hence "0 < \<lceil>q\<rceil>"
    by simp
  hence "nat \<lceil>q - 1\<rceil> < nat \<lceil>q\<rceil>"
    by (simp add: ceiling_diff_one)
  thus "(d + pi * 2, d) \<in> measure (\<lambda>d. nat \<lceil>- d / (pi * 2)\<rceil>)"
    unfolding in_measure e q_def[symmetric] .
qed

declare wrap_below.simps [simp del]

definition normalize_angle :: "real \<Rightarrow> real" where
  "normalize_angle d = wrap_below (wrap_above d)"

text \<open>\<^verbatim>\<open>let d = b.rotation - b.rotationLag\<close>, read after \<^verbatim>\<open>b.rotation += b.rotationSpeed\<close>.\<close>

definition lag_difference :: "bloom \<Rightarrow> real" where
  "lag_difference b = bl_rotation b + bl_rotationSpeed b - bl_rotationLag b"

text \<open>The body of the \<^verbatim>\<open>forEach\<close> in \<^verbatim>\<open>update\<close>; \<open>t\<close> is \<^verbatim>\<open>this.time\<close> after the base update.\<close>

definition bloom_step :: "real \<Rightarrow> bloom \<Rightarrow> bloom" where
  "bloom_step t b =
     (let lagFactor = 0.014;
          rotation' = bl_rotation b + bl_rotationSpeed b;
          d = normalize_angle (rotation' - bl_rotationLag b)
      in b\<lparr> bl_rotation := rotation',
            bl_rotationLag := bl_rotationLag b + d * lagFactor,
            bl_swayTilt := 0.06 * sin (t * 0.35 + bl_swayPhase b)
                             + 0.03 * sin (t * 0.5 + bl_swayPhase b * 0.7),
            bl_petalPhase := map (\<lambda>(i, ph). ph + (0.006 + real (i mod 3) * 0.003))
                               (enumerate 0 (bl_petalPhase b)) \<rparr>)"

definition BloomVisual_update :: "blooms_visual \<Rightarrow> blooms_visual" where
  "BloomVisual_update v =
     (let v1 = BaseVisual_update v
      in v1\<lparr> blooms := map (bloom_step (time v1)) (blooms v1) \<rparr>)"

text \<open>
  \<^verbatim>\<open>drawPetalLayer\<close>. \<^verbatim>\<open>bloom.sat\<close> is always a number, so \<^verbatim>\<open>sat\<close> is \<^verbatim>\<open>bloom.sat\<close>. Every
  bloom built by \<^verbatim>\<open>initBlooms\<close> has sixteen petal phases, so the read
  \<^verbatim>\<open>bloom.petalPhase[phaseOffset + i]\<close> is in range.
\<close>

definition draw_petal ::
  "real \<Rightarrow> real \<Rightarrow> nat \<Rightarrow> bool \<Rightarrow> real \<Rightarrow> bloom \<Rightarrow> real \<Rightarrow> nat \<Rightarrow> ctx_call list" where
  "draw_petal sz hue n inner t b strokeW i =
     (let sat = bl_sat b;
          len = sz * (if inner then 0.32 else 0.52);
          halfW = sz * (if inner then 0.12 else 0.22);
          alpha = (if bl_translucent b then (if inner then 0.5 else 0.45)
                   else (if inner then 0.78 else 0.72));
          phaseOffset = (if inner then 0 else 6);
          baseAngle = (pi * 2 / real n) * real i + (if inner then pi / real n else 0);
          flutter = 0.042 * sin (t + bl_petalPhase b ! (phaseOffset + i));
          angle = baseAngle + flutter;
          lenScale = 0.95 + real (i mod 2) * 0.08;
          wScale = 0.92 + real (i mod 3) * 0.06;
          pl = len * lenScale;
          pw = halfW * wScale;
          tipX = cos angle * pl;
          tipY = sin angle * pl;
          cpx = cos angle * pl * 0.45 + cos (angle + pi / 2) * pw;
          cpy = sin angle * pl * 0.45 + sin (angle + pi / 2) * pw;
          cpx2 = cos angle * pl * 0.45 - cos (angle + pi / 2) * pw;
          cpy2 = sin angle * pl * 0.45 - sin (angle + pi / 2) * pw;
          midX = cos angle * pl * 0.5;
          midY = sin angle * pl * 0.5
      in [BeginPath, MoveTo 0 0,
          QuadraticCurveTo cpx cpy tipX tipY,
          QuadraticCurveTo cpx2 cpy2 0 0,
          ClosePath,
          SetFillStyle (LinearGradient 0 0 tipX tipY
            [(0, Hsla hue sat 58 alpha),
             (0.35, Hsla hue sat 65 (alpha * 0.92)),
             (0.7, Hsla hue sat 72 (alpha * 0.7)),
             (1, Hsla hue (min 95 (sat + 8)) 82 (alpha * 0.28))]),
          Fill,
          SetStrokeStyle (Solid (Css ''rgba(255, 255, 255, 0.82)'')),
          SetLineWidth strokeW,
          Stroke,
          SetStrokeStyle (Solid (Css ''rgba(255, 255, 255, 0.25)'')),
          SetLineWidth (max 0.5 (sz * 0.004)),
          BeginPath, MoveTo 0 0, LineTo midX midY, Stroke])"

definition drawPetalLayer ::
  "real \<Rightarrow> real \<Rightarrow> nat \<Rightarrow> bool \<Rightarrow> real \<Rightarrow> bloom \<Rightarrow> real \<Rightarrow> ctx_call list" where
  "drawPetalLayer sz hue n inner t b strokeW =
     concat (map (draw_petal sz hue n inner t b strokeW) [0 ..< n])"

definition bloom_spot :: "real \<Rightarrow> real \<Rightarrow> nat \<Rightarrow> ctx_call list" where
  "bloom_spot w h i =
     (let gx = js_rem (real i * 137) w;
          gy = js_rem (real i * 89) h
      in [SetFillStyle (RadialGradient gx gy 0 gx gy 100
            [(0, Css ''rgba(255, 252, 248, 0.12)''), (1, Css ''transparent'')]),
          FillRect (gx - 100) (gy - 100) 200 200])"

definition bloom_ray :: "real \<Rightarrow> nat \<Rightarrow> ctx_call list" where
  "bloom_ray centerR i =
     (let a = (real i / 28) * pi * 2
      in [BeginPath,
          MoveTo (cos a * centerR * 0.25) (sin a * centerR * 0.25),
          LineTo (cos a * centerR) (sin a * centerR),
          Stroke])"

definition draw_bloom :: "real \<Rightarrow> bloom \<Rightarrow> ctx_call list" where
  "draw_bloom t b =
     (let sz = bl_size b; hue = bl_hue b; sat = bl_sat b;
          strokeW = max 1 (sz * 0.014);
          petalLag = normalize_angle (bl_rotationLag b - bl_rotation b);
          centerR = sz * 0.16
      in [Save, Translate (bl_x b) (bl_y b), Rotate (bl_rotation b), Rotate (bl_swayTilt b),
          SetFillStyle (RadialGradient 0 0 0 0 0 (sz * 1.4)
            [(0, Hsla hue sat 75 0.18), (0.6, Hsla hue sat 70 0.06), (1, Css ''transparent'')]),
          BeginPath, Arc 0 0 (sz * 1.35) 0 (pi * 2), Fill,
          Rotate petalLag]
         @ drawPetalLayer sz hue 6 True t b (strokeW * 0.85)
         @ drawPetalLayer sz hue 10 False t b strokeW
         @ [Rotate (- petalLag),
            SetFillStyle (RadialGradient 0 0 0 0 0 centerR
              [(0, Hsl hue sat 36), (0.7, Hsl hue sat 26), (1, Hsl hue sat 18)]),
            BeginPath, Arc 0 0 centerR 0 (pi * 2), Fill,
            SetStrokeStyle (Solid (Css ''rgba(255, 255, 255, 0.7)'')),
            SetLineWidth (max 0.6 (sz * 0.005))]
         @ concat (map (bloom_ray centerR) [0 ..< 28])
         @ [Restore])"

definition BloomVisual_render ::
  "blooms_visual \<Rightarrow> (ctx_call list \<times> js_error option) \<times> blooms_visual" where
  "BloomVisual_render v =
     (let w = width v; h = height v; t = time v
      in (([SetFillStyle (LinearGradient 0 0 w 0
              [(0, Css ''#f8f6f2''), (0.3, Css ''#faf8f5''), (0.5, Css ''#fbf9f6''),
               (0.7, Css ''#faf7f3''), (1, Css ''#f9f5ef'')]),
            FillRect 0 0 w h]
           @ concat (map (bloom_spot w h) [0 ..< 18])
           @ concat (map (draw_bloom t) (blooms v)), None), v))"

section \<open>Streets\<close>

record car =
  car_depth :: real
  car_phase :: real
  car_rightward :: bool

record streets = base_visual +
  cars :: "car list"

definition new_car :: "nat \<Rightarrow> car" where
  "new_car i =
     \<lparr> car_depth = 0.15 + (real i / 5) * 0.7,
       car_phase = (real i / 5) * 2,
       car_rightward = (i mod 2 = 0) \<rparr>"

fun initCars_loop :: "nat \<Rightarrow> nat \<Rightarrow> streets \<Rightarrow> streets" where
  "initCars_loop 0 i v = v"
| "initCars_loop (Suc n) i v = initCars_loop n (Suc i) (v\<lparr> cars := cars v @ [new_car i] \<rparr>)"

definition initCars :: "streets \<Rightarrow> streets" where
  "initCars v = initCars_loop 5 0 v"

definition StreetsVisual :: "html_canvas \<Rightarrow> nat \<Rightarrow> streets" where
  "StreetsVisual cv cx = initCars (base_visual.extend (BaseVisual cv cx) (streets.fields []))"

definition car_step :: "car \<Rightarrow> car" where
  "car_step c =
     (let speed = 0.00045;
          p0 = car_phase c + (if car_rightward c then speed else - speed);
          p1 = (if p0 > 2 then p0 - 2 else p0);
          p2 = (if p1 < 0 then p1 + 2 else p1)
      in c\<lparr> car_phase := p2 \<rparr>)"

definition StreetsVisual_update :: "streets \<Rightarrow> streets" where
  "StreetsVisual_update v =
     (let v1 = BaseVisual_update v in v1\<lparr> cars := map car_step (cars v1) \<rparr>)"

definition StreetsVisual_resize :: "real \<Rightarrow> real \<Rightarrow> streets \<Rightarrow> streets" where
  "StreetsVisual_resize w h v = BaseVisual_resize w h v"

definition yToT :: "real \<Rightarrow> real \<Rightarrow> real \<Rightarrow> real" where
  "yToT h vpY y = min 1 (max 0 ((y - vpY) / (h - vpY)))"

definition project :: "real \<Rightarrow> real \<Rightarrow> real \<Rightarrow> real \<Rightarrow> real" where
  "project w h xNorm y = w * 0.5 + (xNorm * w - w * 0.5) * yToT h (h * 0.32) y"

text \<open>The dashes of the road: \<^verbatim>\<open>for (let y = roadY1 - 30; y > horizon; y -= 40)\<close>.\<close>

function road_dashes :: "real \<Rightarrow> real \<Rightarrow> real \<Rightarrow> real \<Rightarrow> ctx_call list" where
  "road_dashes w h horizon y =
     (if y > horizon
      then (let t = yToT h (h * 0.32) y;
                segW = 16 * (1 - t * 0.75);
                cx = project w h 0.5 y
            in [SetStrokeStyle (Solid (Css ''#8a8478'')),
                SetLineWidth 1,
                StrokeRect (cx - segW / 2) (y - 3) segW 6,
                SetStrokeStyle (Solid (Css ''#1a1a1a'')),
                SetLineWidth 1.4] @ road_dashes w h horizon (y - 40))
      else [])"
  by pat_completeness auto
termination
proof (relation "measure (\<lambda>(w, h, horizon, y). nat \<lceil>(y - horizon) / 40\<rceil>)")
  show "wf (measure (\<lambda>(w :: real, h :: real, horizon :: real, y :: real).
              nat \<lceil>(y - horizon) / 40\<rceil>))"
    by simp
next
  fix w h horizon y :: real
  assume d: "horizon < y"
  define q where "q = (y - horizon) / 40"
  have e: "(y - 40 - horizon) / 40 = q - 1"
    unfolding q_def by (simp add: field_simps)
  have "0 < q"
    unfolding q_def using d by simp
  hence "0 < \<lceil>q\<rceil>"
    by simp
  hence "nat \<lceil>q - 1\<rceil> < nat \<lceil>q\<rceil>"
    by (simp add: ceiling_diff_one)
  thus "((w, h, horizon, y - 40), (w, h, horizon, y))
          \<in> measure (\<lambda>(w, h, horizon, y). nat \<lceil>(y - horizon) / 40\<rceil>)"
    unfolding in_measure prod.case e q_def[symmetric] .
qed

declare road_dashes.simps [simp del]

definition establishment_floor_line ::
  "real \<Rightarrow> real \<Rightarrow> real \<Rightarrow> real \<Rightarrow> real \<Rightarrow> real \<Rightarrow> nat \<Rightarrow> nat \<Rightarrow> ctx_call list" where
  "establishment_floor_line w h x0 x1 y0 y1 floors f =
     (let fy = y1 + (y0 - y1) * (real f / real floors)
      in [BeginPath, MoveTo (project w h x0 fy) fy, LineTo (project w h x1 fy) fy, Stroke])"

definition establishment_column ::
  "real \<Rightarrow> real \<Rightarrow> real \<Rightarrow> real \<Rightarrow> real \<Rightarrow> real \<Rightarrow> nat \<Rightarrow> ctx_call list" where
  "establishment_column w h x0 x1 y0 y1 c =
     (let xNorm = x0 + (x1 - x0) * (real c / 3)
      in [BeginPath, MoveTo (project w h xNorm y0) y0, LineTo (project w h xNorm y1) y1, Stroke])"

definition establishment_window ::
  "real \<Rightarrow> real \<Rightarrow> real \<Rightarrow> real \<Rightarrow> real \<Rightarrow> real \<Rightarrow> nat \<Rightarrow> nat \<Rightarrow> nat \<Rightarrow> ctx_call list" where
  "establishment_window w h x0 x1 y0 y1 floors f c =
     (let fx = x0 + (x1 - x0) * (real c + 0.5) / 3;
          fy = y1 + (y0 - y1) * (real f + 0.5) / real floors;
          wx = (project w h (fx + 0.012) fy - project w h (fx - 0.012) fy) * 0.9;
          wy = 8
      in [StrokeRect (project w h fx fy - wx / 2) (fy - wy / 2) \<bar>wx\<bar> wy])"

definition drawEstablishment ::
  "real \<Rightarrow> real \<Rightarrow> real \<Rightarrow> real \<Rightarrow> real \<Rightarrow> nat \<Rightarrow> bool \<Rightarrow> bool \<Rightarrow> ctx_call list" where
  "drawEstablishment w h xStart widthNorm topNorm floors hasAwning hasDoor =
     (let x0 = xStart;
          x1 = xStart + widthNorm;
          y0 = 0;
          y1 = h * (1 - topNorm);
          groundY = y1 + (y0 - y1) * 0.22;
          dx = (x0 + x1) / 2
      in [SetFillStyle (Solid (Css ''rgba(240, 236, 228, 0.7)'')),
          BeginPath,
          MoveTo (project w h x0 y1) y1,
          LineTo (project w h x0 y0) y0,
          LineTo (project w h x1 y0) y0,
          LineTo (project w h x1 y1) y1,
          ClosePath, Fill, Stroke]
         @ (if hasAwning
            then [BeginPath,
                  MoveTo (project w h x0 groundY) groundY,
                  LineTo (project w h x0 (groundY - 18)) (groundY - 18),
                  LineTo (project w h x1 (groundY - 18)) (groundY - 18),
                  LineTo (project w h x1 groundY) groundY,
                  ClosePath, Stroke]
            else [])
         @ (if hasDoor
            then [BeginPath,
                  MoveTo (project w h (dx - 0.008) groundY) groundY,
                  LineTo (project w h (dx - 0.008) y1) y1,
                  LineTo (project w h (dx + 0.008) y1) y1,
                  LineTo (project w h (dx + 0.008) groundY) groundY,
                  ClosePath, Stroke]
            else [])
         @ concat (map (establishment_floor_line w h x0 x1 y0 y1 floors) [1 ..< floors])
         @ concat (map (establishment_column w h x0 x1 y0 y1) [1 ..< 3])
         @ concat (map (\<lambda>f. concat (map (establishment_window w h x0 x1 y0 y1 floors f) [0 ..< 3]))
                    [1 ..< floors]))"

definition gate_band :: "real \<Rightarrow> real \<Rightarrow> real \<Rightarrow> real \<Rightarrow> real \<times> real \<Rightarrow> ctx_call list" where
  "gate_band gx gateY gateW gateH band =
     (case band of (ty, th) \<Rightarrow>
        [BeginPath,
         MoveTo (gx + gateW * 0.1) (gateY + gateH * ty),
         QuadraticCurveTo (gx + gateW * 0.5) (gateY + gateH * (ty - 0.03))
                          (gx + gateW * 0.9) (gateY + gateH * ty),
         LineTo (gx + gateW * 0.9) (gateY + gateH * (ty + th)),
         QuadraticCurveTo (gx + gateW * 0.5) (gateY + gateH * (ty + th + 0.015))
                          (gx + gateW * 0.1) (gateY + gateH * (ty + th)),
         ClosePath, Stroke])"

definition draw_gate :: "real \<Rightarrow> real \<Rightarrow> ctx_call list" where
  "draw_gate w h =
     (let vpX = w * 0.5;
          gateY = h * 0.48;
          gateH = h * 0.2;
          gateW = w * 0.45;
          gx = vpX - gateW / 2
      in [BeginPath,
          MoveTo gx (gateY + gateH),
          LineTo (gx + gateW * 0.1) (gateY + gateH * 0.4),
          LineTo (gx + gateW * 0.5) (gateY + gateH * 0.02),
          LineTo (gx + gateW * 0.9) (gateY + gateH * 0.4),
          LineTo (gx + gateW) (gateY + gateH),
          Stroke,
          BeginPath,
          MoveTo (gx + gateW * 0.5) (gateY + gateH * 0.02),
          LineTo (gx + gateW * 0.5) (gateY + gateH),
          Stroke,
          BeginPath,
          Arc (gx + gateW * 0.5) (gateY + gateH * 0.52) (gateW * 0.06) 0 (pi * 2),
          Stroke]
         @ concat (map (gate_band gx gateY gateW gateH) [(0.04, 0.08), (0.18, 0.12), (0.35, 0.15)])
         @ [StrokeRect (gx + gateW * 0.2) (gateY - 20) (gateW * 0.6) (gateH * 0.5)]
         @ concat (map (\<lambda>r. [BeginPath,
                               MoveTo (gx + gateW * 0.2) (gateY - 20 + (gateH * 0.5 * real r) / 3),
                               LineTo (gx + gateW * 0.8) (gateY - 20 + (gateH * 0.5 * real r) / 3),
                               Stroke]) [1 ..< 3])
         @ concat (map (\<lambda>c. (let cx = gx + gateW * 0.2 + (gateW * 0.6 * real c) / 4
                               in [BeginPath,
                                   MoveTo cx (gateY - 20),
                                   LineTo cx (gateY - 20 + gateH * 0.5),
                                   Stroke])) [1 ..< 4]))"

definition draw_car :: "real \<Rightarrow> real \<Rightarrow> car \<Rightarrow> ctx_call list" where
  "draw_car w h c =
     (let vpY = h * 0.32;
          roadLeft = 0.22;
          roadRight = 0.78;
          t = car_depth c;
          y = vpY + (h - vpY) * t;
          scale = 1 - t * 0.88;
          carW = 72 * scale;
          carH = 28 * scale;
          xNorm = roadLeft + (roadRight - roadLeft) * (0.15 + car_phase c * 0.7);
          x = project w h xNorm y - carW / 2
      in [StrokeRect x (y - carH) carW carH,
          BeginPath,
          MoveTo (x + carW * 0.22) (y - carH),
          LineTo (x + carW * 0.22) y,
          MoveTo (x + carW * 0.78) (y - carH),
          LineTo (x + carW * 0.78) y,
          Stroke])"

definition StreetsVisual_render :: "streets \<Rightarrow> (ctx_call list \<times> js_error option) \<times> streets" where
  "StreetsVisual_render v =
     (let w = width v; h = height v;
          vpX = w * 0.5;
          vpY = h * 0.32;
          horizon = vpY + 30;
          roadLeft = 0.22;
          roadRight = 0.78;
          sidewalkLeft = 0.08;
          sidewalkRight = 0.92;
          roadY1 = h
      in (([SetFillStyle (Solid (Css ''#f8f6f2'')),
            FillRect 0 0 w h,
            SetStrokeStyle (Solid (Css ''#1a1a1a'')),
            SetLineWidth 1.4,
            SetLineCap ''round'',
            SetLineJoin ''round'',
            SetFillStyle (Solid (Css ''rgba(232, 228, 220, 0.6)'')),
            BeginPath,
            MoveTo (project w h 0 roadY1) roadY1,
            LineTo (project w h 0 0) 0,
            LineTo (project w h sidewalkLeft 0) 0,
            LineTo (project w h roadLeft horizon) horizon,
            LineTo (project w h roadLeft roadY1) roadY1,
            ClosePath, Fill, Stroke,
            BeginPath,
            MoveTo (project w h roadRight roadY1) roadY1,
            LineTo (project w h roadRight horizon) horizon,
            LineTo (project w h sidewalkRight 0) 0,
            LineTo w 0,
            LineTo (project w h 1 roadY1) roadY1,
            ClosePath, Fill, Stroke,
            BeginPath,
            MoveTo (project w h roadLeft roadY1) roadY1,
            LineTo (project w h roadLeft horizon) horizon,
            LineTo vpX vpY,
            LineTo (project w h roadRight horizon) horizon,
            LineTo (project w h roadRight roadY1) roadY1,
            ClosePath, Stroke,
            SetFillStyle (Solid (Css ''rgba(228, 222, 212, 0.5)'')),
            Fill, Stroke]
           @ road_dashes w h horizon (roadY1 - 30)
           @ drawEstablishment w h 0 0.07 0.68 5 True True
           @ drawEstablishment w h 0.07 0.08 0.52 6 True False
           @ drawEstablishment w h 0.15 0.05 0.72 4 False True
           @ drawEstablishment w h 0.88 0.06 0.62 5 True True
           @ drawEstablishment w h 0.94 0.06 0.48 6 True False
           @ draw_gate w h
           @ concat (map (draw_car w h) (cars v)), None), v))"

section \<open>Urbanity\<close>

record building =
  bd_x :: real
  bd_width :: real
  bd_height :: real
  bd_color :: colour

record window_light =
  wl_x :: real
  wl_y :: real
  wl_buildingX :: real
  wl_buildingWidth :: real
  wl_on :: bool
  wl_flicker :: real

record urbanity = base_visual +
  buildings :: "building list"
  urban_lights :: "window_light list"

definition draw_star :: "urbanity \<Rightarrow> nat \<Rightarrow> ctx_call list" where
  "draw_star v i =
     (let x = js_rem (real i * 37) (width v);
          y = js_rem (real i * 73) (height v * 0.5);
          twinkle = sin (time v * 2 + real i) * 0.5 + 0.5
      in [SetGlobalAlpha (twinkle * 0.8), FillRect x y 1 1])"

definition draw_building :: "urbanity \<Rightarrow> building \<Rightarrow> ctx_call list" where
  "draw_building v b =
     [SetFillStyle (Solid (bd_color b)),
      FillRect (bd_x b) (height v - bd_height b) (bd_width b) (bd_height b)]"

definition draw_window_light :: "window_light \<Rightarrow> ctx_call list" where
  "draw_window_light l =
     (if wl_on l
      then (let brightness = 0.5 + sin (wl_flicker l) * 0.3
            in [SetFillStyle (Solid (Rgba 255 220 100 brightness)),
                FillRect (wl_x l - 3) (wl_y l - 3) 6 6,
                SetFillStyle (RadialGradient (wl_x l) (wl_y l) 0 (wl_x l) (wl_y l) 10
                  [(0, Rgba 255 220 100 (brightness * 0.3)), (1, Css ''transparent'')]),
                FillRect (wl_x l - 10) (wl_y l - 10) 20 20])
      else [])"

definition UrbanityVisual_render ::
  "urbanity \<Rightarrow> (ctx_call list \<times> js_error option) \<times> urbanity" where
  "UrbanityVisual_render v =
     (([SetFillStyle (LinearGradient 0 0 0 (height v) [(0, Css ''#0a0a1a''), (1, Css ''#1a1a2e'')]),
        FillRect 0 0 (width v) (height v),
        SetFillStyle (Solid (Css ''rgba(255, 255, 255, 0.8)''))]
       @ concat (map (draw_star v) [0 ..< 100])
       @ [SetGlobalAlpha 1]
       @ concat (map (draw_building v) (buildings v))
       @ concat (map draw_window_light (urban_lights v)), None), v)"

section \<open>The eight effects\<close>

datatype visual =
    Mosaic mosaic
  | Smoke smoke
  | LightShade lightshade
  | Lanterns lanterns
  | Sunset sunset
  | Bloom blooms_visual
  | Streets streets
  | Urbanity urbanity

text \<open>
  \<^verbatim>\<open>visual.render()\<close>, dispatched on the class of the instance: the calls issued on the
  context, the exception if one ended the call, and the instance after the call.
\<close>

fun render :: "visual \<Rightarrow> (ctx_call list \<times> js_error option) \<times> visual" where
  "render (Mosaic v) = (case MosaicVisual_render v of (out, v') \<Rightarrow> (out, Mosaic v'))"
| "render (Smoke v) = (case SmokeVisual_render v of (out, v') \<Rightarrow> (out, Smoke v'))"
| "render (LightShade v) = (case LightShadeVisual_render v of (out, v') \<Rightarrow> (out, LightShade v'))"
| "render (Lanterns v) = (case LanternsVisual_render v of (out, v') \<Rightarrow> (out, Lanterns v'))"
| "render (Sunset v) = (case SunsetVisual_render v of (out, v') \<Rightarrow> (out, Sunset v'))"
| "render (Bloom v) = (case BloomVisual_render v of (out, v') \<Rightarrow> (out, Bloom v'))"
| "render (Streets v) = (case StreetsVisual_render v of (out, v') \<Rightarrow> (out, Streets v'))"
| "render (Urbanity v) = (case UrbanityVisual_render v of (out, v') \<Rightarrow> (out, Urbanity v'))"

section \<open>The 2D context\<close>

text \<open>
  The 2D context of a canvas keeps a drawing state from one call to the next: the fill and
  stroke styles, the line width, cap and join, the global alpha and the transform. It also
  keeps a stack of saved states: \<^verbatim>\<open>save()\<close> pushes a copy of the drawing state and
  \<^verbatim>\<open>restore()\<close> pops one, or does nothing on an empty stack. The current path is not part
  of the drawing state. A fresh context has the styles \<^verbatim>\<open>#000000\<close>, line width 1, cap
  \<^verbatim>\<open>butt\<close>, join \<^verbatim>\<open>miter\<close> and alpha 1. A setter given a value outside its domain leaves
  the attribute as it was.
\<close>

record drawing_state =
  ds_fillStyle :: paint
  ds_strokeStyle :: paint
  ds_lineWidth :: real
  ds_lineCap :: string
  ds_lineJoin :: string
  ds_globalAlpha :: real
  ds_transform :: "ctx_call list"

type_synonym path = "(ctx_call \<times> ctx_call list) list"

record ctx2d =
  cur :: drawing_state
  saved :: "drawing_state list"
  cpath :: path

text \<open>
  What reaches the surface: each \<^verbatim>\<open>fill()\<close>, \<^verbatim>\<open>stroke()\<close>, \<^verbatim>\<open>fillRect()\<close> and
  \<^verbatim>\<open>strokeRect()\<close>, with the part of the drawing state it is painted with. A stroke is
  painted with the stroke style, the line width, cap and join, the alpha and the transform.
  A point of the path keeps the transform under which it was added.
\<close>

datatype painted =
    PaintFill paint real "ctx_call list" path
  | PaintStroke paint real string string real "ctx_call list" path
  | PaintFillRect paint real "ctx_call list" real real real real
  | PaintStrokeRect paint real string string real "ctx_call list" real real real real

definition add_to_path :: "ctx2d \<Rightarrow> ctx_call \<Rightarrow> ctx2d" where
  "add_to_path c x = c\<lparr> cpath := cpath c @ [(x, ds_transform (cur c))] \<rparr>"

definition paint_fill :: "ctx2d \<Rightarrow> painted" where
  "paint_fill c =
     PaintFill (ds_fillStyle (cur c)) (ds_globalAlpha (cur c)) (ds_transform (cur c)) (cpath c)"

definition paint_stroke :: "ctx2d \<Rightarrow> painted" where
  "paint_stroke c =
     PaintStroke (ds_strokeStyle (cur c)) (ds_lineWidth (cur c)) (ds_lineCap (cur c))
       (ds_lineJoin (cur c)) (ds_globalAlpha (cur c)) (ds_transform (cur c)) (cpath c)"

fun ctx_step :: "ctx2d \<Rightarrow> ctx_call \<Rightarrow> painted list \<times> ctx2d" where
  "ctx_step c (SetFillStyle p) = ([], c\<lparr> cur := (cur c)\<lparr> ds_fillStyle := p \<rparr> \<rparr>)"
| "ctx_step c (SetStrokeStyle p) = ([], c\<lparr> cur := (cur c)\<lparr> ds_strokeStyle := p \<rparr> \<rparr>)"
| "ctx_step c (SetLineWidth w) =
     ([], if 0 < w then c\<lparr> cur := (cur c)\<lparr> ds_lineWidth := w \<rparr> \<rparr> else c)"
| "ctx_step c (SetLineCap s) =
     ([], if s = ''butt'' \<or> s = ''round'' \<or> s = ''square''
          then c\<lparr> cur := (cur c)\<lparr> ds_lineCap := s \<rparr> \<rparr> else c)"
| "ctx_step c (SetLineJoin s) =
     ([], if s = ''round'' \<or> s = ''bevel'' \<or> s = ''miter''
          then c\<lparr> cur := (cur c)\<lparr> ds_lineJoin := s \<rparr> \<rparr> else c)"
| "ctx_step c (SetGlobalAlpha a) =
     ([], if 0 \<le> a \<and> a \<le> 1 then c\<lparr> cur := (cur c)\<lparr> ds_globalAlpha := a \<rparr> \<rparr> else c)"
| "ctx_step c (FillRect x y w h) =
     ([PaintFillRect (ds_fillStyle (cur c)) (ds_globalAlpha (cur c)) (ds_transform (cur c)) x y w h],
      c)"
| "ctx_step c (StrokeRect x y w h) =
     ([PaintStrokeRect (ds_strokeStyle (cur c)) (ds_lineWidth (cur c)) (ds_lineCap (cur c))
         (ds_lineJoin (cur c)) (ds_globalAlpha (cur c)) (ds_transform (cur c)) x y w h], c)"
| "ctx_step c BeginPath = ([], c\<lparr> cpath := [] \<rparr>)"
| "ctx_step c ClosePath = ([], add_to_path c ClosePath)"
| "ctx_step c (MoveTo x y) = ([], add_to_path c (MoveTo x y))"
| "ctx_step c (LineTo x y) = ([], add_to_path c (LineTo x y))"
| "ctx_step c (QuadraticCurveTo cx cy x y) = ([], add_to_path c (QuadraticCurveTo cx cy x y))"
| "ctx_step c (Arc x y r a0 a1) = ([], add_to_path c (Arc x y r a0 a1))"
| "ctx_step c (Ellipse x y rx ry rot a0 a1) = ([], add_to_path c (Ellipse x y rx ry rot a0 a1))"
| "ctx_step c Fill = ([paint_fill c], c)"
| "ctx_step c Stroke = ([paint_stroke c], c)"
| "ctx_step c Save = ([], c\<lparr> saved := cur c # saved c \<rparr>)"
| "ctx_step c Restore =
     ([], case saved c of [] \<Rightarrow> c | s # ss \<Rightarrow> c\<lparr> cur := s, saved := ss \<rparr>)"
| "ctx_step c (Translate x y) =
     ([], c\<lparr> cur := (cur c)\<lparr> ds_transform := ds_transform (cur c) @ [Translate x y] \<rparr> \<rparr>)"
| "ctx_step c (Rotate a) =
     ([], c\<lparr> cur := (cur c)\<lparr> ds_transform := ds_transform (cur c) @ [Rotate a] \<rparr> \<rparr>)"

fun ctx_run :: "ctx2d \<Rightarrow> ctx_call list \<Rightarrow> painted list \<times> ctx2d" where
  "ctx_run c [] = ([], c)"
| "ctx_run c (x # xs) =
     (case ctx_step c x of
        (ps, c') \<Rightarrow> (case ctx_run c' xs of (qs, c'') \<Rightarrow> (ps @ qs, c'')))"

definition fresh_context :: ctx2d where
  "fresh_context =
     \<lparr> cur = \<lparr> ds_fillStyle = Solid (Css ''#000000''), ds_strokeStyle = Solid (Css ''#000000''),
               ds_lineWidth = 1, ds_lineCap = ''butt'', ds_lineJoin = ''miter'',
               ds_globalAlpha = 1, ds_transform = [] \<rparr>,
       saved = [], cpath = [] \<rparr>"

text \<open>\<^verbatim>\<open>render()\<close> of an instance whose context is in the state \<open>c\<close>.\<close>

definition render_on ::
  "ctx2d \<Rightarrow> visual \<Rightarrow> (painted list \<times> js_error option) \<times> visual \<times> ctx2d" where
  "render_on c v =
     (case render v of
        ((calls, e), v') \<Rightarrow> (case ctx_run c calls of (ps, c') \<Rightarrow> ((ps, e), v', c')))"

text \<open>The line cap and the line join of each stroke painted, in order.\<close>

fun stroke_styles :: "painted list \<Rightarrow> (string \<times> string) list" where
  "stroke_styles [] = []"
| "stroke_styles (PaintStroke st w cap jn al tr p # ps) = (cap, jn) # stroke_styles ps"
| "stroke_styles (PaintStrokeRect st w cap jn al tr x y rw rh # ps) = (cap, jn) # stroke_styles ps"
| "stroke_styles (PaintFill st al tr p # ps) = stroke_styles ps"
| "stroke_styles (PaintFillRect st al tr x y rw rh # ps) = stroke_styles ps"

definition line_style :: "ctx2d \<Rightarrow> string \<times> string" where
  "line_style c = (ds_lineCap (cur c), ds_lineJoin (cur c))"

text \<open>
  Calls that paint no stroke and leave the line cap and join alone: every call but a
  stroke, a setter of the cap or the join, and \<^verbatim>\<open>restore()\<close>.
\<close>

fun quiet :: "ctx_call \<Rightarrow> bool" where
  "quiet Stroke = False"
| "quiet (StrokeRect x y w h) = False"
| "quiet (SetLineCap s) = False"
| "quiet (SetLineJoin s) = False"
| "quiet Restore = False"
| "quiet c = True"

text \<open>A list of calls that comes to a \<^verbatim>\<open>stroke()\<close> through quiet calls only.\<close>

fun reaches_stroke :: "ctx_call list \<Rightarrow> bool" where
  "reaches_stroke [] = False"
| "reaches_stroke (x # xs) = (x = Stroke \<or> (quiet x \<and> reaches_stroke xs))"

text \<open>Calls that leave the stack of saved states alone.\<close>

fun unstacked :: "ctx_call \<Rightarrow> bool" where
  "unstacked Save = False"
| "unstacked Restore = False"
| "unstacked c = True"

text \<open>A context whose line cap and join are both \<^verbatim>\<open>round\<close>.\<close>

definition rounded :: "ctx2d \<Rightarrow> bool" where
  "rounded c = (line_style c = (''round'', ''round''))"

text \<open>
  An entry of \<^verbatim>\<open>drawables\<close> whose path closure issues quiet calls only, and one that
  \<^verbatim>\<open>drawObstruction\<close> draws as a branch.
\<close>

fun plain_drawable :: "drawable \<Rightarrow> bool" where
  "plain_drawable (ObDrawable d ob) = (\<forall>x \<in> set (ob_draw ob). quiet x)"
| "plain_drawable (LanternDrawable d l) = True"

fun branch_drawable :: "drawable \<Rightarrow> bool" where
  "branch_drawable (ObDrawable d ob) = (ob_type ob = ''branch'')"
| "branch_drawable (LanternDrawable d l) = False"

section \<open>Reachable instances and what they keep\<close>

text \<open>
  The instances a host can hold: built on a canvas, then updated and resized in any order,
  with a random source that stays in \<open>[0, 1)\<close>.
\<close>

inductive bloom_reach :: "blooms_visual \<Rightarrow> bool" where
  construct: "rng_ok rs \<Longrightarrow> bloom_reach (fst (BloomVisual cv cx rs))"
| update: "bloom_reach v \<Longrightarrow> bloom_reach (BloomVisual_update v)"
| resize: "bloom_reach v \<Longrightarrow> rng_ok rs \<Longrightarrow> bloom_reach (fst (BloomVisual_resize w h v rs))"

text \<open>The Streets instances a host can hold.\<close>

inductive streets_reach :: "streets \<Rightarrow> bool" where
  construct: "streets_reach (StreetsVisual cv cx)"
| update: "streets_reach v \<Longrightarrow> streets_reach (StreetsVisual_update v)"
| resize: "streets_reach v \<Longrightarrow> streets_reach (StreetsVisual_resize w h v)"

text \<open>
  The rotation runs ahead of its lag by at most a tenth of a radian, at a speed that
  \<^verbatim>\<open>initBlooms\<close> can give.
\<close>

definition bloom_inv :: "bloom \<Rightarrow> bool" where
  "bloom_inv b =
     (0 \<le> bl_rotation b - bl_rotationLag b \<and> bl_rotation b - bl_rotationLag b \<le> 1 / 10
      \<and> 7 / 10000 \<le> bl_rotationSpeed b \<and> bl_rotationSpeed b \<le> 13 / 10000
      \<and> length (bl_petalPhase b) = 16)"

text \<open>What holds of a bloom between the two loops of \<^verbatim>\<open>initBlooms\<close>.\<close>

definition bloom_pre :: "bloom \<Rightarrow> bool" where
  "bloom_pre b =
     (bl_rotation b = bl_rotationLag b
      \<and> 7 / 10000 \<le> bl_rotationSpeed b \<and> bl_rotationSpeed b \<le> 13 / 10000
      \<and> bl_petalPhase b = [])"

text \<open>The range a vehicle's phase keeps.\<close>

definition car_inv :: "car \<Rightarrow> bool" where
  "car_inv c = (0 \<le> car_phase c \<and> car_phase c \<le> 2 \<and> (\<not> car_rightward c \<longrightarrow> car_phase c < 2))"

section \<open>Concrete surfaces and a concrete random source\<close>

definition half_rng :: rng where
  "half_rng = (\<lambda>k. 1 / 2)"

definition canvas_280x200 :: html_canvas where
  "canvas_280x200 = \<lparr> canvas_id = 0, canvas_width = 280, canvas_height = 200 \<rparr>"

definition canvas_1920x1080 :: html_canvas where
  "canvas_1920x1080 = \<lparr> canvas_id = 0, canvas_width = 1920, canvas_height = 1080 \<rparr>"

text \<open>A smoke instance built at 280 x 200 and then resized to 100 x 100.\<close>

definition smoke_after_resize :: smoke where
  "smoke_after_resize =
     fst (SmokeVisual_resize 100 100 (fst (SmokeVisual canvas_280x200 0 half_rng)) half_rng)"

text \<open>A lantern instance with one lantern in mid-air and one branch.\<close>

definition small_lantern :: lantern where
  "small_lantern =
     \<lparr> ln_x = 140, ln_y = 100, ln_radius = 20, ln_swing = 0,
       ln_swingSpeed = 0.0002, ln_floatSpeed = 0.01, ln_swayAmount = 0.05,
       ln_hue = 7, ln_sat = 90, ln_ribOffset = 0 \<rparr>"

definition small_branch :: obstruction where
  "small_branch =
     \<lparr> ob_type = ''branch'', ob_depth = 0.72, ob_draw = [],
       ob_color = ''rgba(28, 22, 18, 0.92)'', ob_width = 5 \<rparr>"

definition lanterns_small :: lanterns where
  "lanterns_small =
     \<lparr> canvas = canvas_280x200, ctx = 0, width = 280, height = 200, time = 0, scale = 1,
       lanterns = [small_lantern], obstructions = [small_branch] \<rparr>"

text \<open>A lantern instance built at 280 x 200 and updated 18000 times.\<close>

definition lanterns_after_18000 :: lanterns where
  "lanterns_after_18000 = fst ((lanterns_tick ^^ 18000) (LanternsVisual canvas_280x200 0 half_rng))"

text \<open>
  What holds of the lantern instance built at 280 x 200 with the constant source after
  \<open>n\<close> updates, while no lantern has yet left the top.
\<close>

definition lantern_inv :: "nat \<Rightarrow> lanterns \<Rightarrow> bool" where
  "lantern_inv n v =
     (height v = 200 \<and> lanterns v \<noteq> []
      \<and> (\<forall>l \<in> set (lanterns v). ln_y l = 100 - real n * 0.0085
            \<and> ln_floatSpeed l = 0.0085 \<and> ln_radius l = 27.26))"

text \<open>A bloom instance built at 280 x 200.\<close>

definition bloom_280x200 :: blooms_visual where
  "bloom_280x200 = fst (BloomVisual canvas_280x200 0 half_rng)"

text \<open>A second canvas of the reference size.\<close>

definition canvas_280x200_other :: html_canvas where
  "canvas_280x200_other = \<lparr> canvas_id = 1, canvas_width = 280, canvas_height = 200 \<rparr>"

text \<open>
  A lantern instance built on a fresh canvas of 100 by 560 (scale 1, six lanterns), with a
  random source that returns 0.99 at its second call and 0 at every other: the first
  lantern stands at y = 554.4, near the bottom edge. Then two calls of \<^verbatim>\<open>render\<close>, the
  second on the context as the first left it.
\<close>

definition canvas_100x560 :: html_canvas where
  "canvas_100x560 = \<lparr> canvas_id = 0, canvas_width = 100, canvas_height = 560 \<rparr>"

definition low_rng :: rng where
  "low_rng = (\<lambda>k. if k = 1 then 99 / 100 else 0)"

definition lanterns_tall :: lanterns where
  "lanterns_tall = fst (LanternsVisual canvas_100x560 0 low_rng)"

definition lanterns_first_render :: "(painted list \<times> js_error option) \<times> visual \<times> ctx2d" where
  "lanterns_first_render = render_on fresh_context (Lanterns lanterns_tall)"

definition lanterns_second_render :: "(painted list \<times> js_error option) \<times> visual \<times> ctx2d" where
  "lanterns_second_render =
     render_on (snd (snd lanterns_first_render)) (fst (snd lanterns_first_render))"

section \<open>The random source\<close>

lemma rdrop_half_rng [simp]: "rdrop n half_rng = half_rng"
  by (simp add: rdrop_def half_rng_def)

lemma rng_ok_half_rng: "rng_ok half_rng"
  by (simp add: rng_ok_def half_rng_def)

lemma rng_ok_rdrop: "rng_ok rs \<Longrightarrow> rng_ok (rdrop n rs)"
  by (simp add: rng_ok_def rdrop_def)

section \<open>Scale\<close>

lemma visualScale_reference: "visualScale 280 200 = 1"
  by (simp add: visualScale_def REF_AREA_def)

lemma visualScale_1920x1080: "8 / 5 \<le> visualScale 1920 1080"
  unfolding visualScale_def REF_AREA_def
  by (rule real_le_rsqrt) (simp add: power2_eq_square)

text \<open>
  C1. For a width and a height above zero, \<open>visualScale w h\<close> is the square root of
  \<open>w * h / 56000\<close>, where \<open>56000 = 280 * 200\<close> is the reference area; it is not negative,
  and a surface of at least the same area never gets a smaller scale. The function is a
  value of its two arguments only.
\<close>

theorem visualScale_spec:
  assumes "0 < w1" "0 < h1" "0 < w2" "0 < h2" "w1 * h1 \<le> w2 * h2"
  shows "visualScale w1 h1 = sqrt ((w1 * h1) / 56000)
         \<and> REF_AREA = 280 * 200
         \<and> 0 \<le> visualScale w1 h1
         \<and> visualScale w1 h1 \<le> visualScale w2 h2"
proof -
  have "(w1 * h1) / 56000 \<le> (w2 * h2) / 56000"
    using assms(5) by (simp add: divide_right_mono)
  hence "sqrt ((w1 * h1) / 56000) \<le> sqrt ((w2 * h2) / 56000)"
    by (rule real_sqrt_le_mono)
  moreover have "0 \<le> (w1 * h1) / 56000"
    using assms(1,2) by simp
  ultimately show ?thesis
    by (simp add: visualScale_def REF_AREA_def)
qed

theorem visualScale_spec_witness:
  "(0::real) < 280 \<and> (0::real) < 200 \<and> (0::real) < 1120 \<and> (280::real) * 200 \<le> 1120 * 200
   \<and> visualScale 280 200 = sqrt ((280 * 200) / 56000)
   \<and> 0 \<le> visualScale 280 200
   \<and> visualScale 280 200 \<le> visualScale 1120 200"
  using visualScale_spec [of 280 200 1120 200] by simp

section \<open>Smoke and LightShade: how many objects\<close>

lemma initParticles_loop_frame:
  "width (fst (initParticles_loop n v rs)) = width v
   \<and> height (fst (initParticles_loop n v rs)) = height v
   \<and> scale (fst (initParticles_loop n v rs)) = scale v"
  by (induction n arbitrary: v rs) simp_all

lemma new_particle_cong:
  "width v = width v' \<Longrightarrow> height v = height v' \<Longrightarrow> scale v = scale v'
   \<Longrightarrow> new_particle v rs = new_particle v' rs"
  by (simp add: new_particle_def)

text \<open>The loop appends to the list it finds: nothing in \<^verbatim>\<open>initParticles\<close> empties it.\<close>

lemma initParticles_loop_particles:
  "particles (fst (initParticles_loop n v rs))
     = particles v @ map (\<lambda>i. new_particle v (rdrop (7 * i) rs)) [0 ..< n]"
proof (induction n arbitrary: v rs)
  case 0
  show ?case by simp
next
  case (Suc n)
  let ?v = "v\<lparr> particles := particles v @ [new_particle v rs] \<rparr>"
  have nc: "\<And>rs'. new_particle ?v rs' = new_particle v rs'"
    by (rule new_particle_cong) simp_all
  have sh: "map (\<lambda>i. new_particle v (rdrop (7 * i) (rdrop 7 rs))) [0 ..< n]
              = map (\<lambda>i. new_particle v (rdrop (7 * i) rs)) [Suc 0 ..< Suc n]"
    unfolding map_Suc_upt [symmetric] map_map
    by (simp add: rdrop_def comp_def add.commute add.left_commute)
  have "particles (fst (initParticles_loop (Suc n) v rs))
          = particles v @ [new_particle v rs]
              @ map (\<lambda>i. new_particle v (rdrop (7 * i) (rdrop 7 rs))) [0 ..< n]"
    using Suc.IH [of ?v "rdrop 7 rs"] by (simp add: nc)
  also have "\<dots> = particles v @ map (\<lambda>i. new_particle v (rdrop (7 * i) rs)) [0 ..< Suc n]"
    unfolding sh upt_conv_Cons [OF zero_less_Suc] list.map by (simp add: rdrop_def)
  finally show ?case .
qed

lemma initParticles_particles:
  "particles (fst (initParticles v rs))
     = particles v @ map (\<lambda>i. new_particle v (rdrop (7 * i) rs)) [0 ..< nat (smoke_count (scale v))]"
  by (simp add: initParticles_def initParticles_loop_particles)

lemma smoke_count_bounds: "50 \<le> smoke_count s \<and> smoke_count s \<le> 80"
  by (simp add: smoke_count_def)

lemma lightshade_count_bounds: "5 \<le> lightshade_count s \<and> lightshade_count s \<le> 12"
  by (simp add: lightshade_count_def)

lemma initLights_loop_length:
  "length (lights (fst (initLights_loop n v rs))) = length (lights v) + n"
  by (induction n arbitrary: v rs) simp_all

lemma SmokeVisual_particles:
  "particles (fst (SmokeVisual cv cx rs))
     = map (\<lambda>i. new_particle (base_visual.extend (BaseVisual cv cx) (smoke.fields []))
                  (rdrop (7 * i) rs))
         [0 ..< nat (smoke_count (visualScale (canvas_width cv) (canvas_height cv)))]"
  by (simp add: SmokeVisual_def initParticles_particles BaseVisual_def base_visual.defs smoke.defs)

lemma SmokeVisual_length:
  "int (length (particles (fst (SmokeVisual cv cx rs))))
     = smoke_count (visualScale (canvas_width cv) (canvas_height cv))"
  using smoke_count_bounds [of "visualScale (canvas_width cv) (canvas_height cv)"]
  by (simp add: SmokeVisual_particles)

lemma LightShadeVisual_length:
  "int (length (lights (fst (LightShadeVisual cv cx rs))))
     = lightshade_count (visualScale (canvas_width cv) (canvas_height cv))"
  using lightshade_count_bounds [of "visualScale (canvas_width cv) (canvas_height cv)"]
  by (simp add: LightShadeVisual_def initLights_def initLights_loop_length
        BaseVisual_def base_visual.defs lightshade.defs)

lemma smoke_count_reference: "smoke_count (visualScale 280 200) = 50"
  by (simp add: visualScale_reference smoke_count_def)

lemma smoke_count_1920x1080: "smoke_count (visualScale 1920 1080) = 80"
proof -
  have "80 \<le> 50 * visualScale 1920 1080"
    using visualScale_1920x1080 by simp
  hence "80 \<le> \<lfloor>50 * visualScale 1920 1080\<rfloor>"
    by (simp add: le_floor_iff)
  thus ?thesis
    by (simp add: smoke_count_def)
qed

text \<open>
  C5. A SmokeVisual constructed on a surface holds \<open>min 80 (max 50 \<lfloor>50 * scale\<rfloor>)\<close>
  particles, between 50 and 80; a LightShadeVisual holds \<open>min 12 (max 5 \<lfloor>5 * scale\<rfloor>)\<close>
  lights, between 5 and 12. At 280 x 200 the scale is 1 and there are 50 particles; at
  1920 x 1080 there are 80.
\<close>

theorem density_clamped_counts:
  assumes "0 \<le> canvas_width cv" "0 \<le> canvas_height cv"
  shows "int (length (particles (fst (SmokeVisual cv cx rs))))
           = min 80 (max 50 \<lfloor>50 * visualScale (canvas_width cv) (canvas_height cv)\<rfloor>)
         \<and> 50 \<le> length (particles (fst (SmokeVisual cv cx rs)))
         \<and> length (particles (fst (SmokeVisual cv cx rs))) \<le> 80
         \<and> int (length (lights (fst (LightShadeVisual cv cx rs))))
           = min 12 (max 5 \<lfloor>5 * visualScale (canvas_width cv) (canvas_height cv)\<rfloor>)
         \<and> 5 \<le> length (lights (fst (LightShadeVisual cv cx rs)))
         \<and> length (lights (fst (LightShadeVisual cv cx rs))) \<le> 12
         \<and> scale (fst (SmokeVisual canvas_280x200 cx rs)) = 1
         \<and> length (particles (fst (SmokeVisual canvas_280x200 cx rs))) = 50
         \<and> length (particles (fst (SmokeVisual canvas_1920x1080 cx rs))) = 80"
proof -
  let ?s = "visualScale (canvas_width cv) (canvas_height cv)"
  have a: "int (length (particles (fst (SmokeVisual cv cx rs)))) = smoke_count ?s"
    by (rule SmokeVisual_length)
  have b: "int (length (lights (fst (LightShadeVisual cv cx rs)))) = lightshade_count ?s"
    by (rule LightShadeVisual_length)
  have c: "scale (fst (SmokeVisual canvas_280x200 cx rs)) = 1"
    by (simp add: SmokeVisual_def initParticles_def initParticles_loop_frame BaseVisual_def
          base_visual.defs smoke.defs canvas_280x200_def visualScale_reference)
  have d: "int (length (particles (fst (SmokeVisual canvas_280x200 cx rs)))) = 50"
    unfolding SmokeVisual_length by (simp add: canvas_280x200_def smoke_count_reference)
  have e: "int (length (particles (fst (SmokeVisual canvas_1920x1080 cx rs)))) = 80"
    unfolding SmokeVisual_length by (simp add: canvas_1920x1080_def smoke_count_1920x1080)
  have p: "50 \<le> length (particles (fst (SmokeVisual cv cx rs)))
           \<and> length (particles (fst (SmokeVisual cv cx rs))) \<le> 80"
    using a smoke_count_bounds [of ?s] by linarith
  have q: "5 \<le> length (lights (fst (LightShadeVisual cv cx rs)))
           \<and> length (lights (fst (LightShadeVisual cv cx rs))) \<le> 12"
    using b lightshade_count_bounds [of ?s] by linarith
  have a': "int (length (particles (fst (SmokeVisual cv cx rs))))
              = min 80 (max 50 \<lfloor>50 * ?s\<rfloor>)"
    using a by (simp add: smoke_count_def)
  have b': "int (length (lights (fst (LightShadeVisual cv cx rs))))
              = min 12 (max 5 \<lfloor>5 * ?s\<rfloor>)"
    using b by (simp add: lightshade_count_def)
  from d have d': "length (particles (fst (SmokeVisual canvas_280x200 cx rs))) = 50"
    by linarith
  from e have e': "length (particles (fst (SmokeVisual canvas_1920x1080 cx rs))) = 80"
    by linarith
  show ?thesis
    using a' b' c d' e' p q by blast
qed

theorem density_clamped_counts_witness:
  "0 \<le> canvas_width canvas_280x200 \<and> 0 \<le> canvas_height canvas_280x200
   \<and> length (particles (fst (SmokeVisual canvas_280x200 0 half_rng))) = 50
   \<and> 5 \<le> length (lights (fst (LightShadeVisual canvas_280x200 0 half_rng)))"
  using density_clamped_counts [of canvas_280x200 0 half_rng]
  by (simp add: canvas_280x200_def)

section \<open>Resize and the state collections\<close>

lemma SmokeVisual_resize_particles:
  "particles (fst (SmokeVisual_resize w h v rs))
     = particles v @ map (\<lambda>i. new_particle (BaseVisual_resize w h v) (rdrop (7 * i) rs))
                       [0 ..< nat (smoke_count (visualScale w h))]"
  by (simp add: SmokeVisual_resize_def initParticles_particles BaseVisual_resize_def)

lemma SmokeVisual_resize_frame:
  "width (fst (SmokeVisual_resize w h v rs)) = w \<and> height (fst (SmokeVisual_resize w h v rs)) = h"
  by (simp add: SmokeVisual_resize_def initParticles_def initParticles_loop_frame
        BaseVisual_resize_def)

lemma smoke_count_100x100: "smoke_count (visualScale 100 100) = 50"
proof -
  have "visualScale 100 100 \<le> 1"
    by (simp add: visualScale_def REF_AREA_def)
  hence "50 * visualScale 100 100 < 51"
    by simp
  hence "\<lfloor>50 * visualScale 100 100\<rfloor> < 51"
    by (simp add: floor_less_iff)
  thus ?thesis
    by (simp add: smoke_count_def)
qed

text \<open>LightShade has the same shape: the lights of before the resize stay in the list.\<close>

lemma LightShade_resize_lights:
  "length (lights (fst (LightShadeVisual_resize w h v rs)))
     = length (lights v) + nat (lightshade_count (visualScale w h))"
  by (simp add: LightShadeVisual_resize_def initLights_def initLights_loop_length
        BaseVisual_resize_def)

text \<open>Lanterns empties its lists before it fills them again.\<close>

lemma initLanterns_loop_length:
  "length (lanterns (fst (initLanterns_loop n v rs))) = length (lanterns v) + n"
  by (induction n arbitrary: v rs) simp_all

lemma initObstructions_lanterns:
  "lanterns (fst (initObstructions v rs)) = lanterns v"
  by (simp add: initObstructions_def split: prod.splits)

lemma initLanterns_length:
  "length (lanterns (fst (initLanterns v rs))) = length (lanterns v) + nat (lanterns_count (scale v))"
  by (simp add: initLanterns_def initLanterns_loop_length)

lemma LanternsVisual_resize_length:
  "length (lanterns (fst (LanternsVisual_resize w h v rs))) = nat (lanterns_count (visualScale w h))"
proof -
  let ?v = "(BaseVisual_resize w h v)\<lparr> lanterns := [], obstructions := [] \<rparr>"
  obtain v' rs' where e: "initLanterns ?v rs = (v', rs')"
    by (cases "initLanterns ?v rs")
  have "lanterns (fst (LanternsVisual_resize w h v rs)) = lanterns v'"
    by (simp add: LanternsVisual_resize_def e initObstructions_lanterns)
  moreover have "length (lanterns v') = nat (lanterns_count (visualScale w h))"
    using initLanterns_length [of ?v rs] unfolding e by (simp add: BaseVisual_resize_def)
  ultimately show ?thesis
    by simp
qed

text \<open>
  C3. After \<^verbatim>\<open>resize(100, 100)\<close> on a SmokeVisual built at 280 x 200 the particle list has
  100 entries, not a fresh set of 50, and its first entry is a particle of the old surface
  at \<open>x = 140\<close>, outside the new width of 100: \<^verbatim>\<open>initParticles\<close> appends to the list and
  \<^verbatim>\<open>resize\<close> does not empty it first.
\<close>

theorem smoke_resize_keeps_stale_particles:
  "length (particles smoke_after_resize) = 100
   \<and> width smoke_after_resize = 100
   \<and> p_x (particles smoke_after_resize ! 0) = 140"
proof -
  let ?old = "fst (SmokeVisual canvas_280x200 0 half_rng)"
  let ?v0 = "base_visual.extend (BaseVisual canvas_280x200 0) (smoke.fields [])"
  have old: "particles ?old = map (\<lambda>i. new_particle ?v0 half_rng) [0 ..< 50]"
    by (simp add: SmokeVisual_particles canvas_280x200_def smoke_count_reference)
  have px: "p_x (new_particle ?v0 half_rng) = 140"
    by (simp add: new_particle_def BaseVisual_def base_visual.defs smoke.defs
          canvas_280x200_def half_rng_def)
  have new: "particles smoke_after_resize
               = particles ?old @ map (\<lambda>i. new_particle (BaseVisual_resize 100 100 ?old) half_rng)
                                    [0 ..< 50]"
    by (simp add: smoke_after_resize_def SmokeVisual_resize_particles smoke_count_100x100)
  have len: "length (particles smoke_after_resize) = 100"
    unfolding new old by simp
  have hd: "particles smoke_after_resize ! 0 = new_particle ?v0 half_rng"
    unfolding new old by (simp add: nth_append)
  have w: "width smoke_after_resize = 100"
    by (simp add: smoke_after_resize_def SmokeVisual_resize_frame)
  show ?thesis
    using len hd px w by simp
qed

section \<open>Lanterns: the order of drawing\<close>

text \<open>
  C2. \<^verbatim>\<open>render\<close> merges every branch and every lantern into one list, and draws the list
  in ascending depth: the calls issued are the background followed by the calls of each
  entry of the sorted list in turn, and of two entries the one of strictly smaller depth
  stands at the smaller position.
\<close>

theorem lanterns_render_depth_order:
  "mset (sorted_drawables v)
     = mset (map (\<lambda>ob. ObDrawable (ob_depth ob) ob) (obstructions v))
       + mset (map (\<lambda>l. LanternDrawable (lanternDepth v l) l) (lanterns v))
   \<and> fst (fst (LanternsVisual_render v))
     = [SetFillStyle (Solid (Css ''#080810'')), FillRect 0 0 (width v) (height v)]
       @ concat (map (draw_drawable v) (sorted_drawables v))
   \<and> (\<forall>i j. i < length (sorted_drawables v) \<longrightarrow> j < length (sorted_drawables v)
          \<longrightarrow> drawable_depth (sorted_drawables v ! i) < drawable_depth (sorted_drawables v ! j)
          \<longrightarrow> i < j)"
proof (intro conjI allI impI)
  show "mset (sorted_drawables v)
          = mset (map (\<lambda>ob. ObDrawable (ob_depth ob) ob) (obstructions v))
            + mset (map (\<lambda>l. LanternDrawable (lanternDepth v l) l) (lanterns v))"
    by (simp add: sorted_drawables_def merged_drawables_def)
next
  show "fst (fst (LanternsVisual_render v))
          = [SetFillStyle (Solid (Css ''#080810'')), FillRect 0 0 (width v) (height v)]
            @ concat (map (draw_drawable v) (sorted_drawables v))"
    by (simp add: LanternsVisual_render_def)
next
  fix i j
  let ?ds = "sorted_drawables v"
  assume i: "i < length ?ds" and j: "j < length ?ds"
    and lt: "drawable_depth (?ds ! i) < drawable_depth (?ds ! j)"
  have s: "sorted (map drawable_depth ?ds)"
    by (simp add: sorted_drawables_def)
  show "i < j"
  proof (rule ccontr)
    assume "\<not> i < j"
    hence "j \<le> i" by simp
    with s i have "map drawable_depth ?ds ! j \<le> map drawable_depth ?ds ! i"
      by (simp add: sorted_iff_nth_mono)
    with i j lt show False by simp
  qed
qed

lemma small_lantern_depth: "lanternDepth lanterns_small small_lantern = 453 / 700"
  by (simp add: lanternDepth_def lanterns_small_def small_lantern_def)

lemma lanterns_small_sorted:
  "sorted_drawables lanterns_small
     = [LanternDrawable (453 / 700) small_lantern, ObDrawable (72 / 100) small_branch]"
proof -
  have "merged_drawables lanterns_small
          = [ObDrawable (72 / 100) small_branch, LanternDrawable (453 / 700) small_lantern]"
    unfolding merged_drawables_def
    by (simp add: lanterns_small_def small_lantern_depth [unfolded lanterns_small_def])
       (simp add: small_branch_def)
  thus ?thesis
    by (simp add: sorted_drawables_def)
qed

theorem lanterns_render_depth_order_witness:
  "0 < length (sorted_drawables lanterns_small) \<and> 1 < length (sorted_drawables lanterns_small)
   \<and> drawable_depth (sorted_drawables lanterns_small ! 0)
       < drawable_depth (sorted_drawables lanterns_small ! 1)
   \<and> (0::nat) < 1"
  using lanterns_render_depth_order [of lanterns_small]
  by (simp add: lanterns_small_sorted)

section \<open>render reads and does not write\<close>

lemma MosaicVisual_render_frame: "snd (MosaicVisual_render v) = v"
  by (simp add: MosaicVisual_render_def Let_def split: prod.splits)

lemma SmokeVisual_render_frame: "snd (SmokeVisual_render v) = v"
  by (simp add: SmokeVisual_render_def)

lemma LightShadeVisual_render_frame: "snd (LightShadeVisual_render v) = v"
  by (simp add: LightShadeVisual_render_def)

lemma LanternsVisual_render_frame: "snd (LanternsVisual_render v) = v"
  by (simp add: LanternsVisual_render_def)

lemma SunsetVisual_render_frame: "snd (SunsetVisual_render v) = v"
  by (simp add: SunsetVisual_render_def Let_def)

lemma BloomVisual_render_frame: "snd (BloomVisual_render v) = v"
  by (simp add: BloomVisual_render_def Let_def)

lemma StreetsVisual_render_frame: "snd (StreetsVisual_render v) = v"
  unfolding StreetsVisual_render_def Let_def snd_conv ..

lemma UrbanityVisual_render_frame: "snd (UrbanityVisual_render v) = v"
  by (simp add: UrbanityVisual_render_def)

lemma render_frame: "snd (render v) = v"
proof (cases v)
  case (Mosaic m)
  thus ?thesis using MosaicVisual_render_frame [of m] by (cases "MosaicVisual_render m") auto
next
  case (Smoke m)
  thus ?thesis using SmokeVisual_render_frame [of m] by (cases "SmokeVisual_render m") auto
next
  case (LightShade m)
  thus ?thesis using LightShadeVisual_render_frame [of m] by (cases "LightShadeVisual_render m") auto
next
  case (Lanterns m)
  thus ?thesis using LanternsVisual_render_frame [of m] by (cases "LanternsVisual_render m") auto
next
  case (Sunset m)
  thus ?thesis using SunsetVisual_render_frame [of m] by (cases "SunsetVisual_render m") auto
next
  case (Bloom m)
  thus ?thesis using BloomVisual_render_frame [of m] by (cases "BloomVisual_render m") auto
next
  case (Streets m)
  thus ?thesis using StreetsVisual_render_frame [of m] by (cases "StreetsVisual_render m") auto
next
  case (Urbanity m)
  thus ?thesis using UrbanityVisual_render_frame [of m] by (cases "UrbanityVisual_render m") auto
qed

text \<open>A \<^verbatim>\<open>render\<close> on a context in any state leaves the instance as it found it.\<close>

lemma render_on_instance: "fst (snd (render_on c v)) = v"
  using render_frame [of v] by (simp add: render_on_def split_beta)

section \<open>Lanterns: depth\<close>

lemma new_lantern_cong:
  "width v = width v' \<Longrightarrow> height v = height v' \<Longrightarrow> scale v = scale v'
   \<Longrightarrow> new_lantern v rs = new_lantern v' rs"
  by (simp add: new_lantern_def)

lemma initLanterns_loop_frame:
  "width (fst (initLanterns_loop n v rs)) = width v
   \<and> height (fst (initLanterns_loop n v rs)) = height v
   \<and> scale (fst (initLanterns_loop n v rs)) = scale v"
  by (induction n arbitrary: v rs) simp_all

lemma initLanterns_loop_half:
  "set (lanterns (fst (initLanterns_loop n v half_rng)))
     \<subseteq> set (lanterns v) \<union> {new_lantern v half_rng}"
proof (induction n arbitrary: v)
  case 0
  show ?case by auto
next
  case (Suc n)
  let ?v = "v\<lparr> lanterns := lanterns v @ [new_lantern v half_rng] \<rparr>"
  have "new_lantern ?v half_rng = new_lantern v half_rng"
    by (rule new_lantern_cong) simp_all
  with Suc.IH [of ?v] show ?case
    by auto
qed

lemma lanterns_count_reference: "lanterns_count (visualScale 280 200) = 6"
  by (simp add: visualScale_reference lanterns_count_def)

lemma lantern_inv_start: "lantern_inv 0 (fst (LanternsVisual canvas_280x200 0 half_rng))"
proof -
  let ?v0 = "base_visual.extend (BaseVisual canvas_280x200 0) (lanterns.fields [] [])"
  obtain v1 rs1 where e: "initLanterns ?v0 half_rng = (v1, rs1)"
    by (cases "initLanterns ?v0 half_rng")
  have s0: "scale ?v0 = 1" "height ?v0 = 200" "width ?v0 = 280" "lanterns ?v0 = []"
    by (simp_all add: BaseVisual_def base_visual.defs lanterns.defs canvas_280x200_def
          visualScale_reference)
  have v1: "v1 = fst (initLanterns_loop 6 ?v0 half_rng)"
    using e by (simp add: initLanterns_def s0 lanterns_count_def)
  have h1: "height v1 = 200"
    unfolding v1 by (simp add: initLanterns_loop_frame s0)
  have l1: "length (lanterns v1) = 6"
    unfolding v1 by (simp add: initLanterns_loop_length s0)
  have m1: "set (lanterns v1) \<subseteq> {new_lantern ?v0 half_rng}"
    unfolding v1 using initLanterns_loop_half [of 6 ?v0] by (simp add: s0)
  have n0: "ln_y (new_lantern ?v0 half_rng) = 100
            \<and> ln_floatSpeed (new_lantern ?v0 half_rng) = 0.0085
            \<and> ln_radius (new_lantern ?v0 half_rng) = 27.26"
    by (simp add: new_lantern_def s0 half_rng_def)
  have f: "fst (LanternsVisual canvas_280x200 0 half_rng) = fst (initObstructions v1 rs1)"
    by (simp add: LanternsVisual_def e)
  have h: "height (fst (initObstructions v1 rs1)) = height v1"
    by (simp add: initObstructions_def split: prod.splits)
  have ne: "lanterns v1 \<noteq> []"
    using l1 by auto
  show ?thesis
    unfolding lantern_inv_def f initObstructions_lanterns h
    using h1 ne m1 n0 by auto
qed

lemma lanterns_forEach_nowrap:
  "\<forall>l \<in> set ls. \<not> ln_y l - ln_floatSpeed l < - ln_radius l * 3
   \<Longrightarrow> lanterns_forEach v ls rs
       = (map (\<lambda>l. l\<lparr> ln_swing := ln_swing l + ln_swingSpeed l,
                        ln_x := ln_x l + sin (ln_swing l + ln_swingSpeed l) * ln_swayAmount l * scale v,
                        ln_y := ln_y l - ln_floatSpeed l \<rparr>) ls, rs)"
  by (induction ls) (simp_all add: lantern_step_def Let_def)

lemma lantern_inv_step:
  assumes "lantern_inv n v" "real (Suc n) * 0.0085 \<le> 181"
  shows "lantern_inv (Suc n) (fst (LanternsVisual_update v rs))"
proof -
  let ?v1 = "BaseVisual_update v"
  let ?f = "\<lambda>l. l\<lparr> ln_swing := ln_swing l + ln_swingSpeed l,
                    ln_x := ln_x l + sin (ln_swing l + ln_swingSpeed l) * ln_swayAmount l * scale ?v1,
                    ln_y := ln_y l - ln_floatSpeed l \<rparr>"
  have l1: "lanterns ?v1 = lanterns v" and h1: "height ?v1 = height v"
    by (simp_all add: BaseVisual_update_def)
  have nw: "\<forall>l \<in> set (lanterns ?v1). \<not> ln_y l - ln_floatSpeed l < - ln_radius l * 3"
    unfolding l1 using assms by (auto simp: lantern_inv_def)
  have fe: "lanterns_forEach ?v1 (lanterns ?v1) rs = (map ?f (lanterns ?v1), rs)"
    using nw by (rule lanterns_forEach_nowrap)
  have u: "fst (LanternsVisual_update v rs) = ?v1\<lparr> lanterns := map ?f (lanterns ?v1) \<rparr>"
    unfolding LanternsVisual_update_def Let_def fe by simp
  have "height (fst (LanternsVisual_update v rs)) = 200"
    unfolding u using assms(1) by (simp add: h1 lantern_inv_def)
  moreover have "lanterns (fst (LanternsVisual_update v rs)) = map ?f (lanterns v)"
    unfolding u by (simp add: l1)
  moreover have "\<forall>l \<in> set (lanterns v). ln_y (?f l) = 100 - real (Suc n) * 0.0085
      \<and> ln_floatSpeed (?f l) = 0.0085 \<and> ln_radius (?f l) = 27.26"
  proof
    fix l
    assume "l \<in> set (lanterns v)"
    with assms(1) have y: "ln_y l = 100 - real n * 0.0085"
      and f: "ln_floatSpeed l = 0.0085" and r: "ln_radius l = 27.26"
      by (simp_all add: lantern_inv_def)
    show "ln_y (?f l) = 100 - real (Suc n) * 0.0085
            \<and> ln_floatSpeed (?f l) = 0.0085 \<and> ln_radius (?f l) = 27.26"
      by (simp add: y f r field_simps)
  qed
  moreover have "lanterns v \<noteq> []"
    using assms(1) by (simp add: lantern_inv_def)
  ultimately show ?thesis
    unfolding lantern_inv_def by simp
qed

lemma lantern_inv_run:
  "real n * 0.0085 \<le> 181
   \<Longrightarrow> lantern_inv n (fst ((lanterns_tick ^^ n) (LanternsVisual canvas_280x200 0 half_rng)))"
proof (induction n)
  case 0
  show ?case by (simp add: lantern_inv_start)
next
  case (Suc n)
  let ?p = "(lanterns_tick ^^ n) (LanternsVisual canvas_280x200 0 half_rng)"
  have "real n * 0.0085 \<le> 181"
    using Suc.prems by simp
  hence "lantern_inv n (fst ?p)"
    by (rule Suc.IH)
  hence "lantern_inv (Suc n) (fst (LanternsVisual_update (fst ?p) (snd ?p)))"
    using Suc.prems by (rule lantern_inv_step)
  hence "lantern_inv (Suc n) (fst (lanterns_tick ?p))"
    unfolding lanterns_tick_def .
  thus ?case
    by simp
qed

text \<open>
  C4, as stated, fails. A lantern of the instance built at 280 x 200 has floated to
  \<open>y = -53\<close> after 18000 updates, above the top edge and not yet respawned, and its depth is
  above 1. And of two lanterns of the same radius the one lower on screen (\<open>y = 150\<close>) has
  the smaller depth, not the larger.
\<close>

theorem lanternDepth_counterexample:
  "1 < lanternDepth lanterns_after_18000 (hd (lanterns lanterns_after_18000))
   \<and> lanternDepth lanterns_small (small_lantern\<lparr> ln_y := 150 \<rparr>)
       < lanternDepth lanterns_small (small_lantern\<lparr> ln_y := 50 \<rparr>)"
proof -
  have "lantern_inv 18000 lanterns_after_18000"
    unfolding lanterns_after_18000_def by (rule lantern_inv_run) simp
  hence h: "height lanterns_after_18000 = 200"
    and l: "ln_y (hd (lanterns lanterns_after_18000)) = - 53"
           "ln_radius (hd (lanterns lanterns_after_18000)) = 27.26"
    by (simp_all add: lantern_inv_def)
  have a: "1 < lanternDepth lanterns_after_18000 (hd (lanterns lanterns_after_18000))"
    by (simp add: lanternDepth_def h l)
  have b: "lanternDepth lanterns_small (small_lantern\<lparr> ln_y := 150 \<rparr>)
             < lanternDepth lanterns_small (small_lantern\<lparr> ln_y := 50 \<rparr>)"
    by (simp add: lanternDepth_def lanterns_small_def small_lantern_def)
  show ?thesis
    using a b by simp
qed

lemma depth_of_quotient:
  fixes q q' :: real
  shows "q < 1 \<Longrightarrow> 0.12 < 0.12 + 0.82 * (1 - q)"
    and "- (1 / 2) \<le> q \<Longrightarrow> 0.12 + 0.82 * (1 - q) \<le> 1.35"
    and "0 \<le> q \<Longrightarrow> 0.12 + 0.82 * (1 - q) \<le> 0.94"
    and "q < q' \<Longrightarrow> 0.12 + 0.82 * (1 - q') < 0.12 + 0.82 * (1 - q)"
  by (simp_all add: field_simps)

text \<open>
  C4, amended. For a lantern of positive radius on a surface of non-negative height,
  \<^verbatim>\<open>lanternDepth\<close> lies in \<open>(0.12, 1.35]\<close>, and is at most 0.94 while the lantern's \<open>y\<close> is not
  negative. Between two lanterns of one radius it strictly decreases as the clamped \<open>y\<close>
  increases: the lantern lower on screen (larger \<open>y\<close>) has the smaller depth and is drawn
  earlier.
\<close>

theorem lanternDepth_range:
  assumes "0 \<le> height v" "0 < ln_radius l"
  shows "0.12 < lanternDepth v l
         \<and> lanternDepth v l \<le> 1.35
         \<and> (0 \<le> ln_y l \<longrightarrow> lanternDepth v l \<le> 0.94)
         \<and> (\<forall>l'. ln_radius l' = ln_radius l
               \<longrightarrow> max (- ln_radius l * 2) (min (height v + ln_radius l * 2) (ln_y l))
                     < max (- ln_radius l' * 2) (min (height v + ln_radius l' * 2) (ln_y l'))
               \<longrightarrow> lanternDepth v l' < lanternDepth v l)"
proof -
  define r where "r = ln_radius l"
  define H where "H = height v"
  define D where "D = H + r * 4"
  define y where "y = max (- r * 2) (min (H + r * 2) (ln_y l))"
  define q where "q = y / D"
  have D: "0 < D" and rp: "0 < r" and Hp: "0 \<le> H"
    using assms by (simp_all add: D_def r_def H_def)
  have dep: "lanternDepth v l = 0.12 + 0.82 * (1 - q)"
    by (simp add: lanternDepth_def q_def y_def D_def r_def H_def)
  have ylo: "- r * 2 \<le> y" and yhi: "y \<le> H + r * 2"
    using rp Hp by (simp_all add: y_def)
  have "y < D"
    using yhi rp by (simp add: D_def)
  hence q1: "q < 1"
    unfolding q_def using D by simp
  have hD: "D / 2 = H / 2 + r * 2"
    unfolding D_def by (simp add: field_simps)
  have "0 \<le> H / 2"
    using Hp by simp
  hence "- (D / 2) \<le> y"
    using ylo unfolding hD by linarith
  hence q2: "- (1 / 2) \<le> q"
    unfolding q_def using D by (simp add: field_simps)
  have a: "0.12 < lanternDepth v l"
    unfolding dep using q1 by (rule depth_of_quotient)
  have b: "lanternDepth v l \<le> 1.35"
    unfolding dep using q2 by (rule depth_of_quotient)
  have c: "lanternDepth v l \<le> 0.94" if "0 \<le> ln_y l"
  proof -
    have "0 \<le> y"
      using that rp Hp by (simp add: y_def)
    hence "0 \<le> q"
      unfolding q_def using D by simp
    thus ?thesis
      unfolding dep by (rule depth_of_quotient)
  qed
  have d: "lanternDepth v l' < lanternDepth v l"
    if r': "ln_radius l' = ln_radius l"
      and lt: "max (- ln_radius l * 2) (min (height v + ln_radius l * 2) (ln_y l))
                 < max (- ln_radius l' * 2) (min (height v + ln_radius l' * 2) (ln_y l'))"
    for l'
  proof -
    define y' where "y' = max (- r * 2) (min (H + r * 2) (ln_y l'))"
    define q' where "q' = y' / D"
    have dep': "lanternDepth v l' = 0.12 + 0.82 * (1 - q')"
      by (simp add: lanternDepth_def q'_def y'_def D_def r_def H_def r')
    have "y < y'"
      using lt by (simp add: y_def y'_def r_def H_def r')
    hence "q < q'"
      unfolding q_def q'_def using D by (simp add: divide_strict_right_mono)
    thus ?thesis
      unfolding dep dep' by (rule depth_of_quotient)
  qed
  show ?thesis
    using a b c d by blast
qed

theorem lanternDepth_range_witness:
  "0 \<le> height lanterns_small \<and> 0 < ln_radius small_lantern
   \<and> 0 \<le> ln_y small_lantern
   \<and> ln_radius (small_lantern\<lparr> ln_y := 150 \<rparr>) = ln_radius small_lantern
   \<and> max (- ln_radius small_lantern * 2)
          (min (height lanterns_small + ln_radius small_lantern * 2) (ln_y small_lantern))
       < max (- ln_radius (small_lantern\<lparr> ln_y := 150 \<rparr>) * 2)
             (min (height lanterns_small + ln_radius (small_lantern\<lparr> ln_y := 150 \<rparr>) * 2)
                  (ln_y (small_lantern\<lparr> ln_y := 150 \<rparr>)))
   \<and> lanternDepth lanterns_small small_lantern \<le> 0.94
   \<and> lanternDepth lanterns_small (small_lantern\<lparr> ln_y := 150 \<rparr>)
       < lanternDepth lanterns_small small_lantern"
proof -
  have h: "0 \<le> height lanterns_small" "0 < ln_radius small_lantern" "0 \<le> ln_y small_lantern"
    "ln_radius (small_lantern\<lparr> ln_y := 150 \<rparr>) = ln_radius small_lantern"
    "max (- ln_radius small_lantern * 2)
          (min (height lanterns_small + ln_radius small_lantern * 2) (ln_y small_lantern))
       < max (- ln_radius (small_lantern\<lparr> ln_y := 150 \<rparr>) * 2)
             (min (height lanterns_small + ln_radius (small_lantern\<lparr> ln_y := 150 \<rparr>) * 2)
                  (ln_y (small_lantern\<lparr> ln_y := 150 \<rparr>)))"
    by (simp_all add: lanterns_small_def small_lantern_def)
  show ?thesis
    using lanternDepth_range [OF h(1) h(2)] h by blast
qed

section \<open>Lanterns: what render leaves on the context\<close>

lemma ctx_run_append:
  "ctx_run c (xs @ ys)
     = (fst (ctx_run c xs) @ fst (ctx_run (snd (ctx_run c xs)) ys),
        snd (ctx_run (snd (ctx_run c xs)) ys))"
  by (induction xs arbitrary: c) (simp_all add: split_beta)

lemma stroke_styles_append: "stroke_styles (ps @ qs) = stroke_styles ps @ stroke_styles qs"
  by (induction ps rule: stroke_styles.induct) simp_all

lemma quiet_step:
  "quiet x \<Longrightarrow> stroke_styles (fst (ctx_step c x)) = []
                 \<and> line_style (snd (ctx_step c x)) = line_style c"
  by (cases x) (simp_all add: add_to_path_def paint_fill_def line_style_def)

lemma quiet_run:
  "\<forall>x \<in> set xs. quiet x
   \<Longrightarrow> stroke_styles (fst (ctx_run c xs)) = []
       \<and> line_style (snd (ctx_run c xs)) = line_style c"
proof (induction xs arbitrary: c)
  case Nil
  show ?case by simp
next
  case (Cons x xs)
  have q: "quiet x" and qs: "\<forall>y \<in> set xs. quiet y"
    using Cons.prems by simp_all
  note s = quiet_step [OF q, of c]
  note r = Cons.IH [OF qs, of "snd (ctx_step c x)"]
  show ?case
    using s r by (simp add: split_beta stroke_styles_append)
qed

lemma reaches_stroke_append:
  "reaches_stroke (xs @ ys) = (reaches_stroke xs \<or> ((\<forall>x \<in> set xs. quiet x) \<and> reaches_stroke ys))"
  by (induction xs) auto

lemma reaches_stroke_prefix: "reaches_stroke xs \<Longrightarrow> reaches_stroke (xs @ ys)"
  by (simp add: reaches_stroke_append)

lemma reaches_stroke_run:
  "reaches_stroke xs
   \<Longrightarrow> take 1 (stroke_styles (fst (ctx_run c xs))) = [line_style c]"
proof (induction xs arbitrary: c)
  case Nil
  thus ?case by simp
next
  case (Cons x xs)
  show ?case
  proof (cases "x = Stroke")
    case True
    thus ?thesis
      by (simp add: split_beta paint_stroke_def line_style_def)
  next
    case False
    hence q: "quiet x" and r: "reaches_stroke xs"
      using Cons.prems by simp_all
    note s = quiet_step [OF q, of c]
    note i = Cons.IH [OF r, of "snd (ctx_step c x)"]
    show ?thesis
      using s i by (simp add: split_beta stroke_styles_append)
  qed
qed

lemma unstacked_step: "unstacked x \<Longrightarrow> saved (snd (ctx_step c x)) = saved c"
  by (cases x) (simp_all add: add_to_path_def)

lemma unstacked_run: "\<forall>x \<in> set xs. unstacked x \<Longrightarrow> saved (snd (ctx_run c xs)) = saved c"
proof (induction xs arbitrary: c)
  case Nil
  show ?case by simp
next
  case (Cons x xs)
  have "saved (snd (ctx_run (snd (ctx_step c x)) xs)) = saved (snd (ctx_step c x))"
    using Cons.prems by (intro Cons.IH) simp
  moreover have "saved (snd (ctx_step c x)) = saved c"
    using Cons.prems by (intro unstacked_step) simp
  ultimately show ?case
    by (simp add: split_beta)
qed

text \<open>A block between \<^verbatim>\<open>save()\<close> and \<^verbatim>\<open>restore()\<close> gives the drawing state back.\<close>

lemma save_restore_run:
  assumes "\<forall>x \<in> set body. unstacked x"
  shows "cur (snd (ctx_run c (Save # body @ [Restore]))) = cur c
         \<and> saved (snd (ctx_run c (Save # body @ [Restore]))) = saved c"
proof -
  let ?c1 = "c\<lparr> saved := cur c # saved c \<rparr>"
  let ?c2 = "snd (ctx_run ?c1 body)"
  have s2: "saved ?c2 = cur c # saved c"
    using unstacked_run [OF assms, of ?c1] by simp
  have "snd (ctx_run c (Save # body @ [Restore])) = snd (ctx_run ?c2 [Restore])"
    by (simp add: ctx_run_append split_beta)
  also have "\<dots> = ?c2\<lparr> cur := cur c, saved := saved c \<rparr>"
    by (simp add: s2)
  finally show ?thesis
    by simp
qed

lemma rib_path_calls:
  "x \<in> set (rib_path r a t) \<Longrightarrow> quiet x \<and> unstacked x"
proof (induction r a t rule: rib_path.induct)
  case (1 r a t)
  show ?case
  proof (cases "t \<le> 0.88")
    case True
    with "1.prems" "1.IH" show ?thesis
      by (subst (asm) rib_path.simps) (auto simp add: Let_def split: if_splits)
  next
    case False
    with "1.prems" show ?thesis
      by (subst (asm) rib_path.simps) simp
  qed
qed

lemma lantern_rib_reaches: "reaches_stroke (lantern_rib l i)"
  using rib_path_calls [of _ "ln_radius l"]
  by (simp add: lantern_rib_def Let_def reaches_stroke_append)

lemma drawOneLantern_reaches: "reaches_stroke (drawOneLantern l)"
  using lantern_rib_reaches [of l 0]
  by (simp add: drawOneLantern_def Let_def reaches_stroke_append upt_conv_Cons)

lemma lantern_reaches:
  "reaches_stroke (drawLanternLightSpill l @ drawOneLantern l)"
  using drawOneLantern_reaches [of l]
  by (simp add: reaches_stroke_append drawLanternLightSpill_def Let_def)

lemma lantern_tassel_unstacked: "x \<in> set (lantern_tassel r tilt ty i) \<Longrightarrow> unstacked x"
  by (auto simp add: lantern_tassel_def Let_def)

lemma lantern_rib_unstacked: "x \<in> set (lantern_rib l i) \<Longrightarrow> unstacked x"
  using rib_path_calls [of x "ln_radius l"]
  by (auto simp add: lantern_rib_def Let_def)

lemma drawOneLantern_block:
  "drawOneLantern l = Save # butlast (tl (drawOneLantern l)) @ [Restore]"
  by (simp add: drawOneLantern_def Let_def butlast_append)

lemma drawOneLantern_body:
  "x \<in> set (butlast (tl (drawOneLantern l))) \<Longrightarrow> unstacked x"
  using lantern_rib_unstacked [of x l] lantern_tassel_unstacked [of x]
  by (auto simp add: drawOneLantern_def Let_def butlast_append)

lemma drawOneLantern_restores:
  "cur (snd (ctx_run c (drawOneLantern l))) = cur c"
proof -
  have b: "\<forall>x \<in> set (butlast (tl (drawOneLantern l))). unstacked x"
    using drawOneLantern_body by blast
  show ?thesis
    using save_restore_run [OF b, of c] drawOneLantern_block [of l] by simp
qed

lemma lantern_keeps_style:
  "line_style (snd (ctx_run c (drawLanternLightSpill l @ drawOneLantern l))) = line_style c"
proof -
  let ?c = "snd (ctx_run c (drawLanternLightSpill l))"
  have "\<forall>x \<in> set (drawLanternLightSpill l). quiet x"
    by (simp add: drawLanternLightSpill_def Let_def)
  hence "line_style ?c = line_style c"
    using quiet_run by blast
  moreover have "line_style (snd (ctx_run ?c (drawOneLantern l))) = line_style ?c"
    by (simp add: line_style_def drawOneLantern_restores)
  ultimately show ?thesis
    by (simp add: ctx_run_append)
qed

lemma branch_rounds:
  assumes "ob_type ob = ''branch''" and "\<forall>x \<in> set (ob_draw ob). quiet x"
  shows "rounded (snd (ctx_run c (drawObstruction v ob)))"
proof -
  let ?pre = "[SetStrokeStyle (Solid (Css (ob_color ob))),
               SetLineWidth ((if ob_width ob = 0 then 5 else ob_width ob) * scale v),
               SetLineCap ''round'', SetLineJoin ''round'', BeginPath]"
  let ?c1 = "snd (ctx_run c ?pre)"
  let ?c2 = "snd (ctx_run ?c1 (ob_draw ob))"
  have d: "drawObstruction v ob = ?pre @ ob_draw ob @ [Stroke]"
    using assms(1) by (simp add: drawObstruction_def)
  have c1: "line_style ?c1 = (''round'', ''round'')"
    by (simp add: line_style_def)
  have c2: "line_style ?c2 = line_style ?c1"
    using quiet_run [OF assms(2)] by blast
  have "snd (ctx_run c (drawObstruction v ob)) = snd (ctx_run ?c2 [Stroke])"
    unfolding d by (simp only: ctx_run_append snd_conv)
  hence "line_style (snd (ctx_run c (drawObstruction v ob))) = line_style ?c2"
    by (simp add: line_style_def)
  thus ?thesis
    unfolding rounded_def c2 c1 .
qed

lemma obstruction_keeps_rounded:
  assumes "\<forall>x \<in> set (ob_draw ob). quiet x" and "rounded c"
  shows "rounded (snd (ctx_run c (drawObstruction v ob)))"
proof (cases "ob_type ob = ''branch''")
  case True
  thus ?thesis using branch_rounds assms(1) by blast
next
  case False
  thus ?thesis using assms(2) by (simp add: drawObstruction_def)
qed

lemma drawable_rounded:
  assumes "plain_drawable d" and "rounded c \<or> branch_drawable d"
  shows "rounded (snd (ctx_run c (draw_drawable v d)))"
proof (cases d)
  case (ObDrawable k ob)
  show ?thesis
  proof (cases "ob_type ob = ''branch''")
    case True
    thus ?thesis
      using assms(1) branch_rounds [of ob c v] unfolding ObDrawable by simp
  next
    case False
    thus ?thesis
      using assms obstruction_keeps_rounded [of ob c v] unfolding ObDrawable by simp
  qed
next
  case (LanternDrawable k l)
  thus ?thesis
    using assms(2) lantern_keeps_style [of c l] by (simp add: rounded_def)
qed

lemma drawables_rounded:
  "\<forall>d \<in> set ds. plain_drawable d
   \<Longrightarrow> rounded c \<or> (\<exists>d \<in> set ds. branch_drawable d)
   \<Longrightarrow> rounded (snd (ctx_run c (concat (map (draw_drawable v) ds))))"
proof (induction ds arbitrary: c)
  case Nil
  thus ?case by simp
next
  case (Cons d ds)
  let ?c = "snd (ctx_run c (draw_drawable v d))"
  have p: "plain_drawable d" and ps: "\<forall>e \<in> set ds. plain_drawable e"
    using Cons.prems(1) by simp_all
  have r: "rounded ?c \<or> (\<exists>e \<in> set ds. branch_drawable e)"
  proof (cases "rounded c \<or> branch_drawable d")
    case True
    thus ?thesis using drawable_rounded [OF p, of c v] by blast
  next
    case False
    thus ?thesis using Cons.prems(2) by auto
  qed
  from Cons.IH [OF ps r] show ?case
    by (simp add: ctx_run_append)
qed

lemma merged_drawables_obstruction:
  "ObDrawable k ob \<in> set (merged_drawables v) \<Longrightarrow> k = ob_depth ob \<and> ob \<in> set (obstructions v)"
  by (auto simp add: merged_drawables_def)

lemma sorted_drawables_lantern_first:
  assumes l: "l \<in> set (lanterns v)"
    and below: "\<forall>ob \<in> set (obstructions v). lanternDepth v l < ob_depth ob"
  shows "\<exists>k l' rest. sorted_drawables v = LanternDrawable k l' # rest"
proof -
  have s: "set (sorted_drawables v) = set (merged_drawables v)"
    by (simp add: sorted_drawables_def)
  have m: "LanternDrawable (lanternDepth v l) l \<in> set (sorted_drawables v)"
    unfolding s using l by (simp add: merged_drawables_def)
  then obtain x rest where e: "sorted_drawables v = x # rest"
    by (cases "sorted_drawables v") auto
  have "sorted (map drawable_depth (sorted_drawables v))"
    by (simp add: sorted_drawables_def)
  hence "\<forall>y \<in> set (sorted_drawables v). drawable_depth x \<le> drawable_depth y"
    unfolding e by auto
  with m have le: "drawable_depth x \<le> lanternDepth v l"
    by fastforce
  show ?thesis
  proof (cases x)
    case (ObDrawable k ob)
    have "ObDrawable k ob \<in> set (merged_drawables v)"
      using e s ObDrawable by auto
    from merged_drawables_obstruction [OF this] below
    have "lanternDepth v l < k"
      by auto
    with le ObDrawable show ?thesis
      by simp
  next
    case (LanternDrawable k l')
    with e show ?thesis
      by blast
  qed
qed

lemma render_on_Lanterns:
  "render_on c (Lanterns v)
     = ((fst (ctx_run c (fst (fst (LanternsVisual_render v)))), None), Lanterns v,
        snd (ctx_run c (fst (fst (LanternsVisual_render v)))))"
  by (simp add: render_on_def LanternsVisual_render_def split_beta)

lemma lanterns_render_first_stroke:
  assumes "sorted_drawables v = LanternDrawable k l # rest"
  shows "take 1 (stroke_styles (fst (fst (render_on c (Lanterns v))))) = [line_style c]"
proof -
  let ?rest = "concat (map (draw_drawable v) rest)"
  let ?block = "drawLanternLightSpill l @ drawOneLantern l"
  have e: "fst (fst (LanternsVisual_render v))
             = SetFillStyle (Solid (Css ''#080810'')) # FillRect 0 0 (width v) (height v)
               # (?block @ ?rest)"
    by (simp add: LanternsVisual_render_def assms)
  have "reaches_stroke (?block @ ?rest)"
    using lantern_reaches [of l] by (rule reaches_stroke_prefix)
  hence "reaches_stroke (fst (fst (LanternsVisual_render v)))"
    unfolding e by (simp only: reaches_stroke.simps quiet.simps simp_thms)
  from reaches_stroke_run [OF this, of c] show ?thesis
    by (simp add: render_on_Lanterns)
qed

lemma lanterns_render_rounded:
  assumes plain: "\<forall>ob \<in> set (obstructions v). \<forall>x \<in> set (ob_draw ob). quiet x"
    and branch: "\<exists>ob \<in> set (obstructions v). ob_type ob = ''branch''"
  shows "rounded (snd (snd (render_on c (Lanterns v))))"
proof -
  let ?c = "snd (ctx_run c [SetFillStyle (Solid (Css ''#080810'')), FillRect 0 0 (width v) (height v)])"
  have s: "set (sorted_drawables v) = set (merged_drawables v)"
    by (simp add: sorted_drawables_def)
  have p: "\<forall>d \<in> set (sorted_drawables v). plain_drawable d"
    unfolding s using plain by (auto simp add: merged_drawables_def)
  obtain ob where ob: "ob \<in> set (obstructions v)" "ob_type ob = ''branch''"
    using branch by blast
  have "ObDrawable (ob_depth ob) ob \<in> set (sorted_drawables v)"
    unfolding s using ob(1) by (simp add: merged_drawables_def)
  moreover have "branch_drawable (ObDrawable (ob_depth ob) ob)"
    using ob(2) by simp
  ultimately have b: "\<exists>d \<in> set (sorted_drawables v). branch_drawable d"
    by blast
  hence "rounded ?c \<or> (\<exists>d \<in> set (sorted_drawables v). branch_drawable d)"
    by simp
  from drawables_rounded [OF p this, of v] show ?thesis
    by (simp only: render_on_Lanterns LanternsVisual_render_def fst_conv snd_conv ctx_run_append)
qed

lemma push_branches_set:
  "ob \<in> set (fst (push_branches bs obs rs))
   \<Longrightarrow> ob \<in> set obs \<or> (ob_type ob = ''branch'' \<and> (ob_depth ob, ob_draw ob) \<in> set bs)"
proof (induction bs arbitrary: obs rs)
  case Nil
  thus ?case by simp
next
  case (Cons b bs)
  obtain d path where b: "b = (d, path)"
    by (cases b)
  from Cons.prems Cons.IH show ?case
    unfolding b by fastforce
qed

lemma push_branches_length:
  "length (fst (push_branches bs obs rs)) = length obs + length bs"
  by (induction bs arbitrary: obs rs) auto

lemma branches_plain:
  "(d, path) \<in> set (branches w h) \<Longrightarrow> 22 / 100 \<le> d \<and> (\<forall>x \<in> set path. quiet x)"
  by (auto simp add: branches_def)

lemma initObstructions_branches:
  assumes "ob \<in> set (obstructions (fst (initObstructions v rs)))"
  shows "ob_type ob = ''branch'' \<and> 22 / 100 \<le> ob_depth ob \<and> (\<forall>x \<in> set (ob_draw ob). quiet x)"
proof -
  have "ob \<in> set (fst (push_branches (branches (width v) (height v)) [] rs))"
    using assms by (simp add: initObstructions_def split_beta)
  from push_branches_set [OF this] branches_plain [of "ob_depth ob" "ob_draw ob"]
  show ?thesis
    by auto
qed

lemma initObstructions_nonempty: "obstructions (fst (initObstructions v rs)) \<noteq> []"
proof -
  have "length (obstructions (fst (initObstructions v rs))) = 5"
    by (simp add: initObstructions_def split_beta push_branches_length branches_def)
  thus ?thesis
    by auto
qed

lemma initLanterns_loop_keeps:
  "set (lanterns v) \<subseteq> set (lanterns (fst (initLanterns_loop n v rs)))"
proof (induction n arbitrary: v rs)
  case 0
  show ?case by simp
next
  case (Suc n)
  from Suc.IH [of "v\<lparr> lanterns := lanterns v @ [new_lantern v rs] \<rparr>" "rdrop 10 rs"]
  show ?case by auto
qed

lemma initLanterns_loop_first:
  "new_lantern v rs \<in> set (lanterns (fst (initLanterns_loop (Suc n) v rs)))"
  using initLanterns_loop_keeps [of "v\<lparr> lanterns := lanterns v @ [new_lantern v rs] \<rparr>" n "rdrop 10 rs"]
  by auto

lemma low_rng_ok: "rng_ok low_rng"
  by (simp add: rng_ok_def low_rng_def)

lemma visualScale_100x560: "visualScale 100 560 = 1"
  by (simp add: visualScale_def REF_AREA_def)

lemma lanterns_tall_parts:
  "height lanterns_tall = 560
   \<and> new_lantern (base_visual.extend (BaseVisual canvas_100x560 0) (lanterns.fields [] [])) low_rng
        \<in> set (lanterns lanterns_tall)
   \<and> obstructions lanterns_tall \<noteq> []
   \<and> (\<forall>ob \<in> set (obstructions lanterns_tall).
         ob_type ob = ''branch'' \<and> 22 / 100 \<le> ob_depth ob \<and> (\<forall>x \<in> set (ob_draw ob). quiet x))"
proof -
  let ?v0 = "base_visual.extend (BaseVisual canvas_100x560 0) (lanterns.fields [] [])"
  obtain v1 rs1 where e: "initLanterns ?v0 low_rng = (v1, rs1)"
    by (cases "initLanterns ?v0 low_rng")
  have s0: "scale ?v0 = 1" "height ?v0 = 560" "width ?v0 = 100" "lanterns ?v0 = []"
    by (simp_all add: BaseVisual_def base_visual.defs lanterns.defs canvas_100x560_def
          visualScale_100x560)
  have v1: "v1 = fst (initLanterns_loop (Suc 5) ?v0 low_rng)"
    using e by (simp add: initLanterns_def s0 lanterns_count_def eval_nat_numeral)
  have h1: "height v1 = 560"
    unfolding v1 by (simp only: initLanterns_loop_frame s0)
  have m1: "new_lantern ?v0 low_rng \<in> set (lanterns v1)"
    unfolding v1 by (rule initLanterns_loop_first)
  have f: "lanterns_tall = fst (initObstructions v1 rs1)"
    by (simp add: lanterns_tall_def LanternsVisual_def e)
  have h: "height (fst (initObstructions v1 rs1)) = height v1"
    by (simp add: initObstructions_def split: prod.splits)
  show ?thesis
    unfolding f initObstructions_lanterns h
    using h1 m1 initObstructions_nonempty [of v1 rs1] initObstructions_branches [of _ v1 rs1]
    by blast
qed

lemma lanterns_tall_first_depth:
  "lanternDepth lanterns_tall
     (new_lantern (base_visual.extend (BaseVisual canvas_100x560 0) (lanterns.fields [] [])) low_rng)
     = 659 / 3100"
proof -
  let ?v0 = "base_visual.extend (BaseVisual canvas_100x560 0) (lanterns.fields [] [])"
  have s0: "scale ?v0 = 1" "height ?v0 = 560"
    by (simp_all add: BaseVisual_def base_visual.defs lanterns.defs canvas_100x560_def
          visualScale_100x560)
  have n: "ln_y (new_lantern ?v0 low_rng) = 2772 / 5" "ln_radius (new_lantern ?v0 low_rng) = 406 / 25"
    by (simp_all add: new_lantern_def s0 low_rng_def)
  have h: "height lanterns_tall = 560"
    using lanterns_tall_parts by (rule conjunct1)
  show ?thesis
    by (simp add: lanternDepth_def Let_def n h)
qed

lemma lanterns_tall_sorted:
  "\<exists>k l rest. sorted_drawables lanterns_tall = LanternDrawable k l # rest"
proof -
  let ?l = "new_lantern (base_visual.extend (BaseVisual canvas_100x560 0) (lanterns.fields [] [])) low_rng"
  note p = lanterns_tall_parts [THEN conjunct2]
  have l: "?l \<in> set (lanterns lanterns_tall)"
    using p by (rule conjunct1)
  have d: "\<forall>ob \<in> set (obstructions lanterns_tall). 22 / 100 \<le> ob_depth ob"
    using p [THEN conjunct2, THEN conjunct2] by blast
  have "\<forall>ob \<in> set (obstructions lanterns_tall). lanternDepth lanterns_tall ?l < ob_depth ob"
  proof
    fix ob
    assume "ob \<in> set (obstructions lanterns_tall)"
    with d have "22 / 100 \<le> ob_depth ob"
      by blast
    thus "lanternDepth lanterns_tall ?l < ob_depth ob"
      unfolding lanterns_tall_first_depth by simp
  qed
  with l show ?thesis
    by (rule sorted_drawables_lantern_first)
qed

lemma lanterns_tall_rounded: "rounded (snd (snd (render_on c (Lanterns lanterns_tall))))"
proof -
  note p = lanterns_tall_parts [THEN conjunct2, THEN conjunct2]
  have ne: "obstructions lanterns_tall \<noteq> []"
    using p by (rule conjunct1)
  have a: "\<forall>ob \<in> set (obstructions lanterns_tall).
             ob_type ob = ''branch'' \<and> (\<forall>x \<in> set (ob_draw ob). quiet x)"
    using p [THEN conjunct2] by blast
  from ne obtain ob where "ob \<in> set (obstructions lanterns_tall)"
    by (cases "obstructions lanterns_tall") auto
  with a have "\<exists>ob \<in> set (obstructions lanterns_tall). ob_type ob = ''branch''"
    by blast
  moreover from a have "\<forall>ob \<in> set (obstructions lanterns_tall). \<forall>x \<in> set (ob_draw ob). quiet x"
    by blast
  ultimately show ?thesis
    by (rule lanterns_render_rounded [rotated])
qed

text \<open>
  C7. A lantern instance is built on a fresh canvas of 100 by 560 and rendered twice, with
  no \<^verbatim>\<open>update\<close> in between. The instance is the same after the first \<^verbatim>\<open>render\<close>, but the
  drawing is not: the first stroke of the first \<^verbatim>\<open>render\<close> (a rib of the lantern nearest the
  bottom edge, drawn before every branch) has the line cap \<^verbatim>\<open>butt\<close> and the line join
  \<^verbatim>\<open>miter\<close> of a fresh context, and the same stroke of the second \<^verbatim>\<open>render\<close> has
  \<^verbatim>\<open>round\<close> and \<^verbatim>\<open>round\<close>, which \<^verbatim>\<open>drawObstruction\<close> set for the branches and left on
  the context.
\<close>

theorem lanterns_render_twice_differs:
  "fst (snd lanterns_first_render) = Lanterns lanterns_tall
   \<and> take 1 (stroke_styles (fst (fst lanterns_first_render))) = [(''butt'', ''miter'')]
   \<and> take 1 (stroke_styles (fst (fst lanterns_second_render))) = [(''round'', ''round'')]
   \<and> fst lanterns_first_render \<noteq> fst lanterns_second_render"
proof -
  obtain k l rest where s: "sorted_drawables lanterns_tall = LanternDrawable k l # rest"
    using lanterns_tall_sorted by blast
  let ?c = "snd (snd lanterns_first_render)"
  have i: "fst (snd lanterns_first_render) = Lanterns lanterns_tall"
    unfolding lanterns_first_render_def by (rule render_on_instance)
  have "line_style fresh_context = (''butt'', ''miter'')"
    by (simp add: line_style_def fresh_context_def)
  with lanterns_render_first_stroke [OF s, of fresh_context]
  have a: "take 1 (stroke_styles (fst (fst lanterns_first_render))) = [(''butt'', ''miter'')]"
    by (simp only: lanterns_first_render_def)
  have "line_style ?c = (''round'', ''round'')"
    using lanterns_tall_rounded [of fresh_context]
    by (simp only: lanterns_first_render_def rounded_def)
  with lanterns_render_first_stroke [OF s, of ?c]
  have b: "take 1 (stroke_styles (fst (fst lanterns_second_render))) = [(''round'', ''round'')]"
    by (simp only: lanterns_second_render_def i)
  have "fst lanterns_first_render \<noteq> fst lanterns_second_render"
  proof
    assume "fst lanterns_first_render = fst lanterns_second_render"
    with a b show False
      by simp
  qed
  with i a b show ?thesis
    by (intro conjI)
qed

section \<open>Sunset: the clouds\<close>

lemma hash_first_cloud: "hash (0 + cloud_seed + 1) = 3705671670"
  by (simp add: hash_def cloud_seed_def)

lemma SunsetVisual_update_run:
  "width ((SunsetVisual_update ^^ n) v) = width v
   \<and> height ((SunsetVisual_update ^^ n) v) = height v
   \<and> scale ((SunsetVisual_update ^^ n) v) = scale v
   \<and> zoomOut ((SunsetVisual_update ^^ n) v) = zoomOut v
   \<and> time ((SunsetVisual_update ^^ n) v) = time v + real n * 0.016"
  by (induction n) (simp_all add: SunsetVisual_update_def BaseVisual_update_def algebra_simps)

lemma SunsetVisual_fields:
  "width (SunsetVisual cv cx) = canvas_width cv
   \<and> height (SunsetVisual cv cx) = canvas_height cv
   \<and> scale (SunsetVisual cv cx) = visualScale (canvas_width cv) (canvas_height cv)
   \<and> zoomOut (SunsetVisual cv cx) = 0.58
   \<and> time (SunsetVisual cv cx) = 0"
  by (simp add: SunsetVisual_def BaseVisual_def base_visual.defs sunset.defs)

lemma cloud_blobs_reads:
  "width a = width b \<Longrightarrow> height a = height b \<Longrightarrow> time a = time b
   \<Longrightarrow> cloud_blobs a s i = cloud_blobs b s i"
  by (simp add: cloud_blobs_def)

lemma drawClouds_reads:
  "width a = width b \<Longrightarrow> height a = height b \<Longrightarrow> time a = time b
   \<Longrightarrow> drawClouds a s = drawClouds b s"
  by (simp add: drawClouds_def cloud_blobs_reads [of a b])

text \<open>
  C6. The cloud layout of Sunset is a value of the fixed seed 12345, the hash, the time and
  the surface dimensions: \<^verbatim>\<open>drawClouds\<close> takes no random source. Two instances built on
  canvases of equal width and height, whichever canvases and contexts they are, and
  updated the same number of times compute the same blobs (position, radius, opacity) for
  every cloud, and their \<^verbatim>\<open>render\<close> issues the same calls.
\<close>

theorem sunset_clouds_deterministic:
  assumes "canvas_width c1 = canvas_width c2" "canvas_height c1 = canvas_height c2"
  shows "(\<forall>i. cloud_blobs ((SunsetVisual_update ^^ n) (SunsetVisual c1 x1))
                (scale ((SunsetVisual_update ^^ n) (SunsetVisual c1 x1))
                   * zoomOut ((SunsetVisual_update ^^ n) (SunsetVisual c1 x1))) i
              = cloud_blobs ((SunsetVisual_update ^^ n) (SunsetVisual c2 x2))
                (scale ((SunsetVisual_update ^^ n) (SunsetVisual c2 x2))
                   * zoomOut ((SunsetVisual_update ^^ n) (SunsetVisual c2 x2))) i)
         \<and> fst (SunsetVisual_render ((SunsetVisual_update ^^ n) (SunsetVisual c1 x1)))
           = fst (SunsetVisual_render ((SunsetVisual_update ^^ n) (SunsetVisual c2 x2)))
         \<and> cloud_seed = 12345"
proof -
  let ?a = "(SunsetVisual_update ^^ n) (SunsetVisual c1 x1)"
  let ?b = "(SunsetVisual_update ^^ n) (SunsetVisual c2 x2)"
  have w: "width ?a = width ?b" and h: "height ?a = height ?b" and t: "time ?a = time ?b"
    and s: "scale ?a = scale ?b" and z: "zoomOut ?a = zoomOut ?b"
    using assms by (simp_all add: SunsetVisual_update_run SunsetVisual_fields)
  have c: "cloud_blobs ?a (scale ?a * zoomOut ?a) i = cloud_blobs ?b (scale ?b * zoomOut ?b) i"
    for i
    unfolding s z using w h t by (rule cloud_blobs_reads)
  have d: "drawClouds ?a (scale ?b * zoomOut ?b) = drawClouds ?b (scale ?b * zoomOut ?b)"
    using w h t by (rule drawClouds_reads)
  have r: "fst (SunsetVisual_render ?a) = fst (SunsetVisual_render ?b)"
    unfolding SunsetVisual_render_def Let_def fst_conv s z w h t d ..
  show ?thesis
    using c r by (simp add: cloud_seed_def)
qed

theorem sunset_clouds_deterministic_witness:
  "canvas_width canvas_280x200 = canvas_width canvas_280x200_other
   \<and> canvas_height canvas_280x200 = canvas_height canvas_280x200_other
   \<and> canvas_280x200 \<noteq> canvas_280x200_other
   \<and> fst (SunsetVisual_render ((SunsetVisual_update ^^ 3) (SunsetVisual canvas_280x200 0)))
     = fst (SunsetVisual_render ((SunsetVisual_update ^^ 3) (SunsetVisual canvas_280x200_other 1)))"
proof -
  have h: "canvas_width canvas_280x200 = canvas_width canvas_280x200_other"
    "canvas_height canvas_280x200 = canvas_height canvas_280x200_other"
    "canvas_280x200 \<noteq> canvas_280x200_other"
    by (simp_all add: canvas_280x200_def canvas_280x200_other_def)
  show ?thesis
    using sunset_clouds_deterministic [OF h(1) h(2), of 3 0 1] h by blast
qed

section \<open>Bloom: rotation lag\<close>

lemma lag_arith:
  fixes r sp l :: real
  shows "r + sp - (l + (r + sp - l) * 0.014) = (1 - 0.014) * (r + sp - l)"
  by (simp add: field_simps)

lemma lag_range:
  fixes d :: real
  shows "0 \<le> d \<Longrightarrow> d \<le> 1013 / 10000
         \<Longrightarrow> 0 \<le> (1 - 0.014) * d \<and> (1 - 0.014) * d \<le> 1 / 10"
  by (simp add: field_simps)

lemma new_bloom_pre: "rng_ok rs \<Longrightarrow> bloom_pre (new_bloom v i rs)"
proof -
  assume "rng_ok rs"
  hence r: "0 \<le> rs 5" "rs 5 < 1"
    by (simp_all add: rng_ok_def)
  have a: "bl_rotation (new_bloom v i rs) = bl_rotationLag (new_bloom v i rs)"
    and b: "bl_petalPhase (new_bloom v i rs) = []"
    and c: "bl_rotationSpeed (new_bloom v i rs) = 0.001 + (rs 5 - 0.5) * 0.0006"
    by (simp_all add: new_bloom_def Let_def)
  have "7 / 10000 \<le> 0.001 + (rs 5 - 0.5) * 0.0006" "0.001 + (rs 5 - 0.5) * 0.0006 \<le> 13 / 10000"
    using r by (simp_all add: field_simps)
  thus ?thesis
    unfolding bloom_pre_def a b c by simp
qed

lemma initBlooms_loop_pre:
  "rng_ok rs \<Longrightarrow> \<forall>b \<in> set (blooms v). bloom_pre b
   \<Longrightarrow> (\<forall>b \<in> set (blooms (fst (initBlooms_loop n i v rs))). bloom_pre b)
       \<and> rng_ok (snd (initBlooms_loop n i v rs))
       \<and> length (blooms (fst (initBlooms_loop n i v rs))) = length (blooms v) + n"
proof (induction n arbitrary: i v rs)
  case 0
  thus ?case by simp
next
  case (Suc n)
  let ?v = "v\<lparr> blooms := blooms v @ [new_bloom v i rs] \<rparr>"
  have v': "\<forall>b \<in> set (blooms ?v). bloom_pre b"
    using Suc.prems by (auto simp: new_bloom_pre)
  have r': "rng_ok (rdrop 8 rs)"
    using Suc.prems(1) by (rule rng_ok_rdrop)
  from Suc.IH [OF r' v', of "Suc i"] show ?case
    by simp
qed

lemma push_petalPhases_inv: "bloom_pre b \<Longrightarrow> bloom_inv (push_petalPhases b rs)"
  by (simp add: bloom_pre_def bloom_inv_def push_petalPhases_def)

lemma petalPhases_forEach_inv:
  "\<forall>b \<in> set bs. bloom_pre b
   \<Longrightarrow> (\<forall>b \<in> set (fst (petalPhases_forEach bs rs)). bloom_inv b)
       \<and> length (fst (petalPhases_forEach bs rs)) = length bs"
proof (induction bs arbitrary: rs)
  case Nil
  show ?case by simp
next
  case (Cons b bs)
  obtain bs' rs' where e: "petalPhases_forEach bs (rdrop 16 rs) = (bs', rs')"
    by (cases "petalPhases_forEach bs (rdrop 16 rs)")
  have "(\<forall>x \<in> set bs'. bloom_inv x) \<and> length bs' = length bs"
    using Cons.IH [of "rdrop 16 rs"] Cons.prems unfolding e by simp
  moreover have "bloom_inv (push_petalPhases b rs)"
    using Cons.prems by (simp add: push_petalPhases_inv)
  ultimately show ?case
    by (simp add: e)
qed

lemma initBlooms_inv:
  assumes "rng_ok rs" "blooms v = []"
  shows "(\<forall>b \<in> set (blooms (fst (initBlooms v rs))). bloom_inv b)
         \<and> length (blooms (fst (initBlooms v rs))) = 3"
proof -
  obtain v1 rs1 where e1: "initBlooms_loop 3 0 v rs = (v1, rs1)"
    by (cases "initBlooms_loop 3 0 v rs")
  obtain bs rs2 where e2: "petalPhases_forEach (blooms v1) rs1 = (bs, rs2)"
    by (cases "petalPhases_forEach (blooms v1) rs1")
  have p: "(\<forall>b \<in> set (blooms v1). bloom_pre b) \<and> length (blooms v1) = 3"
    using initBlooms_loop_pre [of rs v 3 0] assms by (simp add: e1)
  hence "(\<forall>b \<in> set bs. bloom_inv b) \<and> length bs = 3"
    using petalPhases_forEach_inv [of "blooms v1" rs1] by (simp add: e2)
  thus ?thesis
    by (simp add: initBlooms_def e1 e2)
qed

lemma normalize_angle_small: "- pi \<le> d \<Longrightarrow> d \<le> pi \<Longrightarrow> normalize_angle d = d"
  by (simp add: normalize_angle_def wrap_above.simps [of d] wrap_below.simps [of d])

lemma bloom_step_fields:
  assumes "bloom_inv b"
  defines "d \<equiv> bl_rotation b + bl_rotationSpeed b - bl_rotationLag b"
  shows "normalize_angle d = d" "0 \<le> d" "d \<le> 1013 / 10000"
    and "bl_rotation (bloom_step t b) = bl_rotation b + bl_rotationSpeed b"
    and "bl_rotationLag (bloom_step t b) = bl_rotationLag b + d * 0.014"
    and "bl_rotation (bloom_step t b) - bl_rotationLag (bloom_step t b) = (1 - 0.014) * d"
    and "bl_rotationSpeed (bloom_step t b) = bl_rotationSpeed b"
    and "length (bl_petalPhase (bloom_step t b)) = length (bl_petalPhase b)"
proof -
  show d: "0 \<le> d" "d \<le> 1013 / 10000"
    using assms(1) by (simp_all add: bloom_inv_def d_def)
  have "d \<le> pi" "- pi \<le> d"
    using d pi_ge_two by linarith+
  thus n: "normalize_angle d = d"
    by (simp add: normalize_angle_small)
  show rot: "bl_rotation (bloom_step t b) = bl_rotation b + bl_rotationSpeed b"
    by (simp add: bloom_step_def Let_def)
  have "bl_rotationLag (bloom_step t b) = bl_rotationLag b + normalize_angle d * 0.014"
    by (simp add: bloom_step_def Let_def d_def)
  thus lag: "bl_rotationLag (bloom_step t b) = bl_rotationLag b + d * 0.014"
    unfolding n .
  show "bl_rotation (bloom_step t b) - bl_rotationLag (bloom_step t b) = (1 - 0.014) * d"
    unfolding rot lag d_def by (rule lag_arith)
  show "bl_rotationSpeed (bloom_step t b) = bl_rotationSpeed b"
    by (simp add: bloom_step_def Let_def)
  show "length (bl_petalPhase (bloom_step t b)) = length (bl_petalPhase b)"
    by (simp add: bloom_step_def Let_def)
qed

lemma bloom_step_inv:
  assumes "bloom_inv b"
  shows "bloom_inv (bloom_step t b)"
proof -
  note f = bloom_step_fields [OF assms]
  have "0 \<le> bl_rotation (bloom_step t b) - bl_rotationLag (bloom_step t b)
        \<and> bl_rotation (bloom_step t b) - bl_rotationLag (bloom_step t b) \<le> 1 / 10"
    unfolding f(6) using f(2) f(3) by (rule lag_range)
  thus ?thesis
    using assms unfolding bloom_inv_def f(7) f(8) by simp
qed

lemma bloom_reach_inv: "bloom_reach v \<Longrightarrow> \<forall>b \<in> set (blooms v). bloom_inv b"
proof (induction rule: bloom_reach.induct)
  case (construct rs cv cx)
  thus ?case
    using initBlooms_inv [of rs "base_visual.extend (BaseVisual cv cx) (blooms_visual.fields [])"]
    by (simp add: BloomVisual_def base_visual.defs blooms_visual.defs)
next
  case (update v)
  thus ?case
    by (auto simp: BloomVisual_update_def Let_def BaseVisual_update_def bloom_step_inv)
next
  case (resize v rs w h)
  thus ?case
    using initBlooms_inv [of rs "(BaseVisual_resize w h v)\<lparr> blooms := [] \<rparr>"]
    by (simp add: BloomVisual_resize_def)
qed

lemma BloomVisual_length: "rng_ok rs \<Longrightarrow> length (blooms (fst (BloomVisual cv cx rs))) = 3"
  using initBlooms_inv [of rs "base_visual.extend (BaseVisual cv cx) (blooms_visual.fields [])"]
  by (simp add: BloomVisual_def base_visual.defs blooms_visual.defs)

lemma wrap_above_le: "wrap_above d \<le> pi"
proof (induction d rule: wrap_above.induct)
  case (1 d)
  show ?case
  proof (cases "d > pi")
    case True
    with "1" show ?thesis by (simp add: wrap_above.simps [of d])
  next
    case False
    thus ?thesis by (simp add: wrap_above.simps [of d])
  qed
qed

lemma wrap_above_gt: "- pi < d \<Longrightarrow> - pi < wrap_above d"
proof (induction d rule: wrap_above.induct)
  case (1 d)
  show ?case
  proof (cases "d > pi")
    case True
    hence "- pi < d - pi * 2" by simp
    with "1.IH" [OF True] True show ?thesis by (simp add: wrap_above.simps [of d])
  next
    case False
    with "1.prems" show ?thesis by (simp add: wrap_above.simps [of d])
  qed
qed

lemma wrap_above_id: "d \<le> pi \<Longrightarrow> wrap_above d = d"
  by (simp add: wrap_above.simps [of d])

lemma wrap_above_turns: "\<exists>k :: nat. wrap_above d = d - 2 * pi * real k"
proof (induction d rule: wrap_above.induct)
  case (1 d)
  show ?case
  proof (cases "d > pi")
    case True
    from "1.IH" [OF True] obtain k :: nat where "wrap_above (d - pi * 2) = d - pi * 2 - 2 * pi * real k"
      by blast
    hence "wrap_above d = d - 2 * pi * real (Suc k)"
      using True by (simp add: wrap_above.simps [of d] algebra_simps)
    thus ?thesis ..
  next
    case False
    hence "wrap_above d = d - 2 * pi * real (0 :: nat)"
      by (simp add: wrap_above.simps [of d])
    thus ?thesis ..
  qed
qed

lemma wrap_below_ge: "- pi \<le> wrap_below d"
proof (induction d rule: wrap_below.induct)
  case (1 d)
  show ?case
  proof (cases "d < - pi")
    case True
    with "1" show ?thesis by (simp add: wrap_below.simps [of d])
  next
    case False
    thus ?thesis by (simp add: wrap_below.simps [of d])
  qed
qed

lemma wrap_below_le: "d \<le> pi \<Longrightarrow> wrap_below d \<le> pi"
proof (induction d rule: wrap_below.induct)
  case (1 d)
  show ?case
  proof (cases "d < - pi")
    case True
    hence "d + pi * 2 \<le> pi" by simp
    with "1.IH" [OF True] True show ?thesis by (simp add: wrap_below.simps [of d])
  next
    case False
    with "1.prems" show ?thesis by (simp add: wrap_below.simps [of d])
  qed
qed

lemma wrap_below_id: "- pi \<le> d \<Longrightarrow> wrap_below d = d"
  by (simp add: wrap_below.simps [of d])

lemma wrap_below_turns: "\<exists>k :: nat. wrap_below d = d + 2 * pi * real k"
proof (induction d rule: wrap_below.induct)
  case (1 d)
  show ?case
  proof (cases "d < - pi")
    case True
    from "1.IH" [OF True] obtain k :: nat where "wrap_below (d + pi * 2) = d + pi * 2 + 2 * pi * real k"
      by blast
    hence "wrap_below d = d + 2 * pi * real (Suc k)"
      using True by (simp add: wrap_below.simps [of d] algebra_simps)
    thus ?thesis ..
  next
    case False
    hence "wrap_below d = d + 2 * pi * real (0 :: nat)"
      by (simp add: wrap_below.simps [of d])
    thus ?thesis ..
  qed
qed

lemma normalize_angle_range: "- pi \<le> normalize_angle d \<and> normalize_angle d \<le> pi"
  unfolding normalize_angle_def using wrap_below_ge wrap_below_le [OF wrap_above_le] by blast

lemma normalize_angle_open: "- pi < d \<Longrightarrow> - pi < normalize_angle d"
proof -
  assume "- pi < d"
  hence a: "- pi < wrap_above d" by (rule wrap_above_gt)
  hence "wrap_below (wrap_above d) = wrap_above d" by (simp add: wrap_below_id)
  thus ?thesis unfolding normalize_angle_def using a by simp
qed

lemma normalize_angle_turns: "\<exists>k :: int. normalize_angle d = d + 2 * pi * real_of_int k"
proof -
  obtain j :: nat where j: "wrap_above d = d - 2 * pi * real j"
    using wrap_above_turns by blast
  obtain m :: nat where m: "wrap_below (wrap_above d) = wrap_above d + 2 * pi * real m"
    using wrap_below_turns by blast
  have "normalize_angle d = wrap_above d + 2 * pi * real m"
    unfolding normalize_angle_def by (rule m)
  hence "normalize_angle d = d - 2 * pi * real j + 2 * pi * real m"
    unfolding j .
  hence "normalize_angle d = d + 2 * pi * real_of_int (int m - int j)"
    by (simp add: algebra_simps)
  thus ?thesis ..
qed

text \<open>The loops leave \<open>-\<pi>\<close> where they find it: the second test is the strict \<^verbatim>\<open>d < -Math.PI\<close>.\<close>

lemma normalize_angle_minus_pi: "normalize_angle (- pi) = - pi"
  by (simp add: normalize_angle_def wrap_above.simps [of "- pi"] wrap_below.simps [of "- pi"])

lemma normalize_angle_shortest:
  "\<bar>normalize_angle d\<bar> \<le> \<bar>d + 2 * pi * real_of_int k\<bar>"
proof -
  obtain k0 :: int where k0: "normalize_angle d = d + 2 * pi * real_of_int k0"
    using normalize_angle_turns by blast
  define m where "m = k - k0"
  have e: "d + 2 * pi * real_of_int k = normalize_angle d + 2 * pi * real_of_int m"
    unfolding k0 m_def by (simp add: algebra_simps)
  have r: "\<bar>normalize_angle d\<bar> \<le> pi"
    using normalize_angle_range [of d] by (simp add: abs_le_iff)
  show ?thesis
  proof (cases "m = 0")
    case True
    thus ?thesis unfolding e by simp
  next
    case False
    hence "1 \<le> \<bar>m\<bar>"
      by linarith
    hence "real_of_int 1 \<le> real_of_int \<bar>m\<bar>"
      by (simp only: of_int_le_iff)
    hence "1 \<le> \<bar>real_of_int m\<bar>"
      by simp
    hence "2 * pi \<le> 2 * pi * \<bar>real_of_int m\<bar>"
      using pi_gt_zero by simp
    hence b: "2 * pi \<le> \<bar>2 * pi * real_of_int m\<bar>"
      by (simp add: abs_mult)
    have "\<bar>2 * pi * real_of_int m\<bar> - \<bar>normalize_angle d\<bar>
            \<le> \<bar>normalize_angle d + 2 * pi * real_of_int m\<bar>"
      by linarith
    thus ?thesis
      unfolding e using b r by linarith
  qed
qed

lemma bloom_step_general:
  "bl_rotation (bloom_step t b) = bl_rotation b + bl_rotationSpeed b
   \<and> bl_rotationLag (bloom_step t b)
     = bl_rotationLag b + normalize_angle (lag_difference b) * 0.014"
  by (simp add: bloom_step_def Let_def lag_difference_def)

text \<open>
  C8. In every \<^verbatim>\<open>update\<close> of a Bloom instance each bloom's rotation advances by its speed and
  its lag by \<open>d * 0.014\<close>, where \<open>d\<close> is the difference of the new rotation and the lag after
  the two normalising loops. The loops bring any difference into \<open>[-\<pi>, \<pi>]\<close> by whole turns,
  to the representative of least magnitude (the shorter angular path), and into \<open>(-\<pi>, \<pi>]\<close>
  whenever the difference is above \<open>-\<pi>\<close>. In every instance that was built on a canvas and
  then updated and resized in any order the difference lies in \<open>[0, 0.1013]\<close>, so \<open>d\<close> is the
  difference itself, inside \<open>(-\<pi>, \<pi>]\<close>, and the distance between rotation and lag shrinks
  by the factor \<open>1 - 0.014\<close>: exponential smoothing.
\<close>

theorem bloom_rotation_lag:
  assumes "i < length (blooms v)"
  shows "bl_rotation (blooms (BloomVisual_update v) ! i)
           = bl_rotation (blooms v ! i) + bl_rotationSpeed (blooms v ! i)
         \<and> lag_difference (blooms v ! i)
           = bl_rotation (blooms (BloomVisual_update v) ! i) - bl_rotationLag (blooms v ! i)
         \<and> bl_rotationLag (blooms (BloomVisual_update v) ! i)
           = bl_rotationLag (blooms v ! i)
             + normalize_angle (lag_difference (blooms v ! i)) * 0.014
         \<and> - pi \<le> normalize_angle (lag_difference (blooms v ! i))
         \<and> normalize_angle (lag_difference (blooms v ! i)) \<le> pi
         \<and> (\<exists>k :: int. normalize_angle (lag_difference (blooms v ! i))
                          = lag_difference (blooms v ! i) + 2 * pi * real_of_int k)
         \<and> (\<forall>k :: int. \<bar>normalize_angle (lag_difference (blooms v ! i))\<bar>
                          \<le> \<bar>lag_difference (blooms v ! i) + 2 * pi * real_of_int k\<bar>)
         \<and> (- pi < lag_difference (blooms v ! i)
              \<longrightarrow> - pi < normalize_angle (lag_difference (blooms v ! i)))
         \<and> (bloom_reach v
              \<longrightarrow> 0 \<le> lag_difference (blooms v ! i)
                  \<and> lag_difference (blooms v ! i) \<le> 1013 / 10000
                  \<and> normalize_angle (lag_difference (blooms v ! i)) = lag_difference (blooms v ! i)
                  \<and> - pi < normalize_angle (lag_difference (blooms v ! i))
                  \<and> bl_rotation (blooms (BloomVisual_update v) ! i)
                      - bl_rotationLag (blooms (BloomVisual_update v) ! i)
                    = (1 - 0.014) * lag_difference (blooms v ! i))"
proof -
  define b where "b = blooms v ! i"
  define t where "t = time (BaseVisual_update v)"
  have b': "blooms (BloomVisual_update v) ! i = bloom_step t b"
    using assms by (simp add: BloomVisual_update_def Let_def BaseVisual_update_def b_def t_def)
  have g: "bl_rotation (bloom_step t b) = bl_rotation b + bl_rotationSpeed b"
    "bl_rotationLag (bloom_step t b) = bl_rotationLag b + normalize_angle (lag_difference b) * 0.014"
    using bloom_step_general [of t b] by simp_all
  have raw: "lag_difference b = bl_rotation (bloom_step t b) - bl_rotationLag b"
    unfolding g(1) lag_difference_def ..
  have r: "- pi \<le> normalize_angle (lag_difference b)" "normalize_angle (lag_difference b) \<le> pi"
    using normalize_angle_range [of "lag_difference b"] by simp_all
  have c: "\<exists>k :: int. normalize_angle (lag_difference b)
                          = lag_difference b + 2 * pi * real_of_int k"
    by (rule normalize_angle_turns)
  have s: "\<forall>k :: int. \<bar>normalize_angle (lag_difference b)\<bar>
                          \<le> \<bar>lag_difference b + 2 * pi * real_of_int k\<bar>"
    by (intro allI normalize_angle_shortest)
  have o: "- pi < lag_difference b \<longrightarrow> - pi < normalize_angle (lag_difference b)"
    by (simp add: normalize_angle_open)
  have re: "0 \<le> lag_difference b
            \<and> lag_difference b \<le> 1013 / 10000
            \<and> normalize_angle (lag_difference b) = lag_difference b
            \<and> - pi < normalize_angle (lag_difference b)
            \<and> bl_rotation (bloom_step t b) - bl_rotationLag (bloom_step t b)
                = (1 - 0.014) * lag_difference b"
    if "bloom_reach v"
  proof -
    have "b \<in> set (blooms v)"
      using assms by (simp add: b_def)
    hence inv: "bloom_inv b"
      using bloom_reach_inv [OF that] by simp
    note f = bloom_step_fields [OF inv, folded lag_difference_def]
    have "- pi < lag_difference b"
      using f(2) pi_ge_two by linarith
    thus ?thesis
      using f(1) f(2) f(3) f(6) by simp
  qed
  have re': "bloom_reach v
            \<longrightarrow> 0 \<le> lag_difference b
            \<and> lag_difference b \<le> 1013 / 10000
            \<and> normalize_angle (lag_difference b) = lag_difference b
            \<and> - pi < normalize_angle (lag_difference b)
            \<and> bl_rotation (bloom_step t b) - bl_rotationLag (bloom_step t b)
                = (1 - 0.014) * lag_difference b"
    by (intro impI re)
  show ?thesis
    unfolding b' b_def [symmetric]
    by (intro conjI) (rule g(1) raw g(2) r(1) r(2) c s o re')+
qed

theorem bloom_rotation_lag_witness:
  "0 < length (blooms bloom_280x200)
   \<and> bloom_reach bloom_280x200
   \<and> - pi < lag_difference (blooms bloom_280x200 ! 0)
   \<and> - pi < normalize_angle (lag_difference (blooms bloom_280x200 ! 0))
   \<and> normalize_angle (lag_difference (blooms bloom_280x200 ! 0)) \<le> pi
   \<and> bl_rotationLag (blooms (BloomVisual_update bloom_280x200) ! 0)
     = bl_rotationLag (blooms bloom_280x200 ! 0)
       + normalize_angle (lag_difference (blooms bloom_280x200 ! 0)) * 0.014"
proof -
  have r: "bloom_reach bloom_280x200"
    unfolding bloom_280x200_def using rng_ok_half_rng by (rule bloom_reach.construct)
  have l: "0 < length (blooms bloom_280x200)"
    unfolding bloom_280x200_def by (simp add: BloomVisual_length rng_ok_half_rng)
  note t = bloom_rotation_lag [OF l]
  note lag = t [THEN conjunct2, THEN conjunct2, THEN conjunct1]
  note hi = t [THEN conjunct2, THEN conjunct2, THEN conjunct2, THEN conjunct2, THEN conjunct1]
  note op = t [THEN conjunct2, THEN conjunct2, THEN conjunct2, THEN conjunct2, THEN conjunct2,
               THEN conjunct2, THEN conjunct2, THEN conjunct1]
  note re = t [THEN conjunct2, THEN conjunct2, THEN conjunct2, THEN conjunct2, THEN conjunct2,
               THEN conjunct2, THEN conjunct2, THEN conjunct2]
  have "0 \<le> lag_difference (blooms bloom_280x200 ! 0)"
    using re r by (elim impE conjE) assumption+
  hence raw: "- pi < lag_difference (blooms bloom_280x200 ! 0)"
    using pi_gt_zero by linarith
  have lo: "- pi < normalize_angle (lag_difference (blooms bloom_280x200 ! 0))"
    using op raw by (rule mp)
  show ?thesis
    using l r raw lo hi lag by (intro conjI)
qed

section \<open>Streets: phase and resize\<close>

lemma initCars_loop_cars:
  "cars (initCars_loop n i v) = cars v @ map new_car [i ..< i + n]"
proof (induction n arbitrary: i v)
  case 0
  show ?case by simp
next
  case (Suc n)
  have "[i ..< i + Suc n] = i # [Suc i ..< Suc i + n]"
    by (simp add: upt_conv_Cons)
  thus ?case
    by (simp add: Suc.IH)
qed

lemma StreetsVisual_cars: "cars (StreetsVisual cv cx) = map new_car [0 ..< 5]"
  by (simp add: StreetsVisual_def initCars_def initCars_loop_cars base_visual.defs streets.defs)

lemma upt_5: "[0 ..< 5] = [0, 1, 2, 3, 4]"
  by (simp add: upt_conv_Cons)

lemma StreetsVisual_update_cars: "cars (StreetsVisual_update v) = map car_step (cars v)"
  by (simp add: StreetsVisual_update_def Let_def BaseVisual_update_def)

lemma StreetsVisual_update_run:
  "cars ((StreetsVisual_update ^^ n) v) = map (car_step ^^ n) (cars v)"
  by (induction n) (simp_all add: StreetsVisual_update_cars)

lemma car_step_rightward: "car_rightward (car_step c) = car_rightward c"
  by (simp add: car_step_def Let_def)

lemma car_step_depth: "car_depth (car_step c) = car_depth c"
  by (simp add: car_step_def Let_def)

lemma car_step_right:
  "car_rightward c \<Longrightarrow>
   car_phase (car_step c)
     = (if car_phase c + 0.00045 > 2 then car_phase c + 0.00045 - 2
        else if car_phase c + 0.00045 < 0 then car_phase c + 0.00045 + 2
        else car_phase c + 0.00045)"
  by (simp add: car_step_def Let_def)

lemma car_step_left:
  "\<not> car_rightward c \<Longrightarrow>
   car_phase (car_step c)
     = (if car_phase c - 0.00045 > 2 then car_phase c - 0.00045 - 2
        else if car_phase c - 0.00045 < 0 then car_phase c - 0.00045 + 2
        else car_phase c - 0.00045)"
  by (simp add: car_step_def Let_def)

lemma phase_right_range:
  fixes p :: real
  shows "0 \<le> p \<Longrightarrow> p \<le> 2 \<Longrightarrow>
         0 < (if p + 0.00045 > 2 then p + 0.00045 - 2
              else if p + 0.00045 < 0 then p + 0.00045 + 2 else p + 0.00045)
         \<and> (if p + 0.00045 > 2 then p + 0.00045 - 2
              else if p + 0.00045 < 0 then p + 0.00045 + 2 else p + 0.00045) \<le> 2"
  by (simp add: field_simps)

lemma phase_left_range:
  fixes p :: real
  shows "0 \<le> p \<Longrightarrow> p < 2 \<Longrightarrow>
         0 \<le> (if p - 0.00045 > 2 then p - 0.00045 - 2
              else if p - 0.00045 < 0 then p - 0.00045 + 2 else p - 0.00045)
         \<and> (if p - 0.00045 > 2 then p - 0.00045 - 2
              else if p - 0.00045 < 0 then p - 0.00045 + 2 else p - 0.00045) < 2"
  by (simp add: field_simps)

lemma car_step_inv: "car_inv c \<Longrightarrow> car_inv (car_step c)"
proof (cases "car_rightward c")
  case True
  assume "car_inv c"
  hence "0 \<le> car_phase c" "car_phase c \<le> 2"
    by (simp_all add: car_inv_def)
  hence "0 < car_phase (car_step c) \<and> car_phase (car_step c) \<le> 2"
    unfolding car_step_right [OF True] by (rule phase_right_range)
  thus ?thesis
    using True by (simp add: car_inv_def car_step_rightward)
next
  case False
  assume "car_inv c"
  hence "0 \<le> car_phase c" "car_phase c < 2"
    using False by (simp_all add: car_inv_def)
  hence "0 \<le> car_phase (car_step c) \<and> car_phase (car_step c) < 2"
    unfolding car_step_left [OF False] by (rule phase_left_range)
  thus ?thesis
    by (simp add: car_inv_def)
qed

lemma car_inv_run: "car_inv c \<Longrightarrow> car_inv ((car_step ^^ n) c)"
  by (induction n) (simp_all add: car_step_inv)

lemma new_car_inv: "i < 5 \<Longrightarrow> car_inv (new_car i)"
  by (simp add: car_inv_def new_car_def field_simps)

text \<open>
  The five vehicles start at the phases \<open>(i / 5) * 2\<close>, every other one rightward. With the
  phase an exact number, every phase stays in the closed interval \<open>[0, 2]\<close>: both wrap tests
  of \<^verbatim>\<open>update\<close> are strict. Whether the running sum of IEEE doubles ever stands on the end
  point \<open>2\<close> is decided by its rounding, which this number model does not carry.
\<close>

lemma streets_phase_closed_range:
  "map car_phase (cars (StreetsVisual cv cx)) = [0, 2 / 5, 4 / 5, 6 / 5, 8 / 5]
   \<and> map car_rightward (cars (StreetsVisual cv cx)) = [True, False, True, False, True]
   \<and> (\<forall>c \<in> set (cars ((StreetsVisual_update ^^ n) (StreetsVisual cv cx))).
         0 \<le> car_phase c \<and> car_phase c \<le> 2 \<and> (\<not> car_rightward c \<longrightarrow> car_phase c < 2))"
proof (intro conjI ballI)
  show "map car_phase (cars (StreetsVisual cv cx)) = [0, 2 / 5, 4 / 5, 6 / 5, 8 / 5]"
    by (simp add: StreetsVisual_cars upt_5 new_car_def)
next
  show "map car_rightward (cars (StreetsVisual cv cx)) = [True, False, True, False, True]"
    by (simp add: StreetsVisual_cars upt_5 new_car_def)
next
  fix c
  assume "c \<in> set (cars ((StreetsVisual_update ^^ n) (StreetsVisual cv cx)))"
  then obtain i where i: "i < 5" and c: "c = (car_step ^^ n) (new_car i)"
    by (auto simp: StreetsVisual_update_run StreetsVisual_cars)
  have "car_inv c"
    unfolding c using new_car_inv [OF i] by (rule car_inv_run)
  thus "0 \<le> car_phase c" "car_phase c \<le> 2" "\<not> car_rightward c \<longrightarrow> car_phase c < 2"
    by (simp_all add: car_inv_def)
qed

lemma streets_reach_cars: "streets_reach v \<Longrightarrow> length (cars v) = 5"
  by (induction rule: streets_reach.induct)
     (simp_all add: StreetsVisual_cars StreetsVisual_update_cars StreetsVisual_resize_def
        BaseVisual_resize_def)

text \<open>
  C10. \<^verbatim>\<open>resize\<close> of a Streets instance (one built on a canvas, then updated and resized in
  any order) changes width, height and scale and nothing else: the list of vehicles is
  the same list, with its five vehicles and their depth, phase and direction.
\<close>

theorem streets_resize_keeps_fleet:
  assumes "streets_reach v"
  shows "cars (StreetsVisual_resize w h v) = cars v
         \<and> length (cars (StreetsVisual_resize w h v)) = 5
         \<and> (\<forall>i < 5. car_depth (cars (StreetsVisual_resize w h v) ! i) = car_depth (cars v ! i)
                \<and> car_phase (cars (StreetsVisual_resize w h v) ! i) = car_phase (cars v ! i)
                \<and> car_rightward (cars (StreetsVisual_resize w h v) ! i)
                    = car_rightward (cars v ! i))
         \<and> time (StreetsVisual_resize w h v) = time v
         \<and> canvas (StreetsVisual_resize w h v) = canvas v
         \<and> ctx (StreetsVisual_resize w h v) = ctx v
         \<and> width (StreetsVisual_resize w h v) = w
         \<and> height (StreetsVisual_resize w h v) = h
         \<and> scale (StreetsVisual_resize w h v) = visualScale w h
         \<and> StreetsVisual_resize w h v = v\<lparr> width := w, height := h, scale := visualScale w h \<rparr>"
  using streets_reach_cars [OF assms]
  by (simp add: StreetsVisual_resize_def BaseVisual_resize_def)

theorem streets_resize_keeps_fleet_witness:
  "streets_reach (StreetsVisual_update (StreetsVisual canvas_280x200 0))
   \<and> (0::nat) < 5
   \<and> cars (StreetsVisual_resize 1920 1080 (StreetsVisual_update (StreetsVisual canvas_280x200 0)))
     = cars (StreetsVisual_update (StreetsVisual canvas_280x200 0))
   \<and> car_phase (cars (StreetsVisual_resize 1920 1080
                         (StreetsVisual_update (StreetsVisual canvas_280x200 0))) ! 0)
     = car_phase (cars (StreetsVisual_update (StreetsVisual canvas_280x200 0)) ! 0)"
proof -
  have r: "streets_reach (StreetsVisual_update (StreetsVisual canvas_280x200 0))"
    by (intro streets_reach.update streets_reach.construct)
  show ?thesis
    using streets_resize_keeps_fleet [OF r, of 1920 1080] r by simp
qed

end
